theory Spec2Isabelle
  imports Main
begin

section \<open>Memory, element type and outcomes\<close>

text \<open>
  The source is \<^verbatim>\<open>src/advanced-vector/vector.h\<close>. The file holds two listings of the
  classes \<^verbatim>\<open>RawMemory<T>\<close> and \<^verbatim>\<open>Vector<T>\<close>: lines 1-336 and lines 337-660.
  They differ in \<^verbatim>\<open>operator=(const Vector&)\<close>, \<^verbatim>\<open>EmplaceBack\<close> and \<^verbatim>\<open>Emplace\<close>;
  those functions are embedded twice, with the suffixes \<open>_v1\<close> (first listing) and
  \<open>_v2\<close> (second listing). The other members are the same in both.

  A \<^verbatim>\<open>T*\<close> is either the null pointer or a block address with an element offset;
  arithmetic on the null pointer stays null, and dereferencing it is undefined.
  \<^verbatim>\<open>size_t\<close> is \<open>nat\<close>: the sizes of the model are not bounded by \<open>2^64\<close>.
  A data member \<^verbatim>\<open>x_\<close> of the source is the record field \<open>m_x\<close>.
\<close>

datatype ptr = Null | Ptr nat nat

fun ptr_add :: "ptr \<Rightarrow> nat \<Rightarrow> ptr" where
  "ptr_add Null k = Null"
| "ptr_add (Ptr a i) k = Ptr a (i + k)"

text \<open>\<^verbatim>\<open>p - 1\<close>: stepping before the start of a block has no defined result.\<close>

fun ptr_dec :: "ptr \<Rightarrow> ptr option" where
  "ptr_dec Null = None"
| "ptr_dec (Ptr a i) = (if i = 0 then None else Some (Ptr a (i - 1)))"

text \<open>\<^verbatim>\<open>p - q\<close> converted to \<^verbatim>\<open>size_t\<close>: defined inside one block, for \<open>q\<close> not after \<open>p\<close>.\<close>

fun ptr_diff :: "ptr \<Rightarrow> ptr \<Rightarrow> nat option" where
  "ptr_diff Null Null = Some 0"
| "ptr_diff (Ptr a i) (Ptr b j) = (if a = b \<and> j \<le> i then Some (i - j) else None)"
| "ptr_diff _ _ = None"

text \<open>
  The operations of the element type \<^verbatim>\<open>T\<close> that the container calls. Each of them is an
  event; the element type decides from the events so far whether the next one throws.
\<close>

datatype 'a event =
    Construct 'a
  | ValueConstruct
  | CopyConstruct 'a
  | MoveConstruct 'a
  | CopyAssign 'a 'a
  | MoveAssign 'a 'a
  | Destroy 'a

record 'a elem_type =
  nothrow_move_constructible :: bool
  copy_constructible :: bool
  throws :: "'a event list \<Rightarrow> 'a event \<Rightarrow> bool"
  moved_from :: "'a \<Rightarrow> 'a"
  value_init :: 'a

text \<open>
  The world: raw blocks obtained from \<^verbatim>\<open>operator new\<close> (\<open>blocks w a = Some n\<close>: block
  \<open>a\<close> is allocated for \<open>n\<close> elements), their slots (\<open>mem w a i = None\<close>: uninitialised;
  \<open>Some x\<close>: a live element of value \<open>x\<close>), the \<^verbatim>\<open>Vector\<close> objects by address, the
  events so far, and the number of elements that lost their storage without being
  destroyed: their block was released under them, or another element was constructed
  over them.
\<close>

record RawMemory =
  m_buffer :: ptr
  m_capacity :: nat

record Vector =
  m_data :: RawMemory
  m_size :: nat

record 'a world =
  blocks :: "nat \<Rightarrow> nat option"
  mem :: "nat \<Rightarrow> nat \<Rightarrow> 'a option"
  brk :: nat
  vecs :: "nat \<Rightarrow> Vector"
  events :: "'a event list"
  leaked :: nat

text \<open>
  An operation ends normally (\<open>Ok\<close>), with an exception in flight (\<open>Throw\<close>), in
  \<^verbatim>\<open>std::terminate\<close> (an exception leaving a \<^verbatim>\<open>noexcept\<close> function), or in undefined
  behaviour (a broken precondition or a failed \<^verbatim>\<open>assert\<close>).
\<close>

datatype ('w, 'r) outcome =
    is_Ok: Ok (world_of: 'w) (result_of: 'r)
  | is_Throw: Throw (world_of: 'w)
  | is_Terminate: Terminate
  | is_Undefined: Undefined

definition bnd :: "('w, 'r) outcome \<Rightarrow> ('w \<Rightarrow> 'r \<Rightarrow> ('w, 's) outcome) \<Rightarrow> ('w, 's) outcome" where
  "bnd m f = (case m of Ok w r \<Rightarrow> f w r | Throw w \<Rightarrow> Throw w
              | Terminate \<Rightarrow> Terminate | Undefined \<Rightarrow> Undefined)"

text \<open>\<^verbatim>\<open>try { m } catch (...) { cleanup; throw; }\<close>\<close>

definition unwind :: "('w, 'r) outcome \<Rightarrow> ('w \<Rightarrow> ('w, unit) outcome) \<Rightarrow> ('w, 'r) outcome" where
  "unwind m cleanup = (case m of Throw w \<Rightarrow> bnd (cleanup w) (\<lambda>w' _. Throw w') | other \<Rightarrow> other)"

text \<open>A pointer that an \<^verbatim>\<open>assert\<close> or the pointer arithmetic refused.\<close>

definition at :: "ptr option \<Rightarrow> (ptr \<Rightarrow> ('w, 'r) outcome) \<Rightarrow> ('w, 'r) outcome" where
  "at po f = (case po of None \<Rightarrow> Undefined | Some p \<Rightarrow> f p)"

definition emit :: "'a event \<Rightarrow> 'a world \<Rightarrow> 'a world" where
  "emit ev w = w\<lparr>events := events w @ [ev]\<rparr>"

definition fails :: "'a elem_type \<Rightarrow> 'a world \<Rightarrow> 'a event \<Rightarrow> bool" where
  "fails T w ev =
     (case ev of
        Destroy _ \<Rightarrow> False
      | MoveConstruct _ \<Rightarrow> \<not> nothrow_move_constructible T \<and> throws T (events w) ev
      | _ \<Rightarrow> throws T (events w) ev)"

fun deref :: "'a world \<Rightarrow> ptr \<Rightarrow> 'a option option" where
  "deref w Null = None"
| "deref w (Ptr a i) =
     (case blocks w a of None \<Rightarrow> None
      | Some n \<Rightarrow> if i < n then Some (mem w a i) else None)"

fun store :: "ptr \<Rightarrow> 'a option \<Rightarrow> 'a world \<Rightarrow> 'a world" where
  "store Null s w = w"
| "store (Ptr a i) s w = w\<lparr>mem := (mem w)(a := (mem w a)(i := s))\<rparr>"

subsection \<open>Operations on single elements\<close>

text \<open>The three ways \<^verbatim>\<open>T(std::forward<Args>(args)...)\<close> is reached.\<close>

datatype 'a init = Args 'a | Copy 'a | Move 'a

fun init_event :: "'a init \<Rightarrow> 'a event" where
  "init_event (Args x) = Construct x"
| "init_event (Copy x) = CopyConstruct x"
| "init_event (Move x) = MoveConstruct x"

fun init_value :: "'a init \<Rightarrow> 'a" where
  "init_value (Args x) = x"
| "init_value (Copy x) = x"
| "init_value (Move x) = x"

text \<open>
  Placement new does not look at what its storage holds. Over an uninitialised slot it
  starts an element; over a live element it starts the new element in its place and the
  old one is never destroyed, which counts as a leak. A constructor that throws leaves
  the slot as it was.
\<close>

definition reuse :: "'a option \<Rightarrow> 'a world \<Rightarrow> 'a world" where
  "reuse s w = (case s of None \<Rightarrow> w | Some y \<Rightarrow> w\<lparr>leaked := leaked w + 1\<rparr>)"

text \<open>\<^verbatim>\<open>new (p) T(std::forward<Args>(args)...)\<close>\<close>

definition construct_at :: "'a elem_type \<Rightarrow> ptr \<Rightarrow> 'a init \<Rightarrow> 'a world \<Rightarrow> ('a world, unit) outcome" where
  "construct_at T p a w =
     (case deref w p of
        Some s \<Rightarrow>
          if fails T w (init_event a) then Throw (emit (init_event a) w)
          else Ok (store p (Some (init_value a)) (emit (init_event a) (reuse s w))) ()
      | None \<Rightarrow> Undefined)"

text \<open>\<^verbatim>\<open>new (p) T()\<close>\<close>

definition value_construct_at :: "'a elem_type \<Rightarrow> ptr \<Rightarrow> 'a world \<Rightarrow> ('a world, unit) outcome" where
  "value_construct_at T p w =
     (case deref w p of
        Some s \<Rightarrow>
          if fails T w ValueConstruct then Throw (emit ValueConstruct w)
          else Ok (store p (Some (value_init T)) (emit ValueConstruct (reuse s w))) ()
      | None \<Rightarrow> Undefined)"

text \<open>\<^verbatim>\<open>new (p) T(*q)\<close>\<close>

definition copy_construct_at :: "'a elem_type \<Rightarrow> ptr \<Rightarrow> ptr \<Rightarrow> 'a world \<Rightarrow> ('a world, unit) outcome" where
  "copy_construct_at T p q w =
     (case (deref w p, deref w q) of
        (Some s, Some (Some x)) \<Rightarrow>
          if fails T w (CopyConstruct x) then Throw (emit (CopyConstruct x) w)
          else Ok (store p (Some x) (emit (CopyConstruct x) (reuse s w))) ()
      | _ \<Rightarrow> Undefined)"

text \<open>\<^verbatim>\<open>new (p) T(std::move(*q))\<close>\<close>

definition move_construct_at :: "'a elem_type \<Rightarrow> ptr \<Rightarrow> ptr \<Rightarrow> 'a world \<Rightarrow> ('a world, unit) outcome" where
  "move_construct_at T p q w =
     (case (deref w p, deref w q) of
        (Some s, Some (Some x)) \<Rightarrow>
          if fails T w (MoveConstruct x) then Throw (emit (MoveConstruct x) w)
          else Ok (store p (Some x)
                 (store q (Some (moved_from T x)) (emit (MoveConstruct x) (reuse s w)))) ()
      | _ \<Rightarrow> Undefined)"

text \<open>\<^verbatim>\<open>*p = *q\<close>; an assignment that throws leaves its target as it was.\<close>

definition copy_assign_at :: "'a elem_type \<Rightarrow> ptr \<Rightarrow> ptr \<Rightarrow> 'a world \<Rightarrow> ('a world, unit) outcome" where
  "copy_assign_at T p q w =
     (case (deref w p, deref w q) of
        (Some (Some y), Some (Some x)) \<Rightarrow>
          if fails T w (CopyAssign y x) then Throw (emit (CopyAssign y x) w)
          else Ok (store p (Some x) (emit (CopyAssign y x) w)) ()
      | _ \<Rightarrow> Undefined)"

text \<open>\<^verbatim>\<open>*p = std::move(*q)\<close>\<close>

definition move_assign_at :: "'a elem_type \<Rightarrow> ptr \<Rightarrow> ptr \<Rightarrow> 'a world \<Rightarrow> ('a world, unit) outcome" where
  "move_assign_at T p q w =
     (case (deref w p, deref w q) of
        (Some (Some y), Some (Some x)) \<Rightarrow>
          if fails T w (MoveAssign y x) then Throw (emit (MoveAssign y x) w)
          else Ok (store p (Some x) (store q (Some (moved_from T x)) (emit (MoveAssign y x) w))) ()
      | _ \<Rightarrow> Undefined)"

text \<open>\<^verbatim>\<open>*p = std::move(tmp)\<close> for a local object \<^verbatim>\<open>tmp\<close> of value \<open>x\<close>.\<close>

definition move_assign_local :: "'a elem_type \<Rightarrow> ptr \<Rightarrow> 'a \<Rightarrow> 'a world \<Rightarrow> ('a world, unit) outcome" where
  "move_assign_local T p x w =
     (case deref w p of
        Some (Some y) \<Rightarrow>
          if fails T w (MoveAssign y x) then Throw (emit (MoveAssign y x) w)
          else Ok (store p (Some x) (emit (MoveAssign y x) w)) ()
      | _ \<Rightarrow> Undefined)"

text \<open>\<^verbatim>\<open>T tmp(std::forward<Args>(args)...)\<close> and the destructor of \<^verbatim>\<open>tmp\<close>.\<close>

definition construct_local :: "'a elem_type \<Rightarrow> 'a init \<Rightarrow> 'a world \<Rightarrow> ('a world, 'a) outcome" where
  "construct_local T a w =
     (if fails T w (init_event a) then Throw (emit (init_event a) w)
      else Ok (emit (init_event a) w) (init_value a))"

definition destroy_local :: "'a \<Rightarrow> 'a world \<Rightarrow> 'a world" where
  "destroy_local x w = emit (Destroy x) w"

text \<open>\<^verbatim>\<open>std::destroy_at(p)\<close>\<close>

definition destroy_at :: "ptr \<Rightarrow> 'a world \<Rightarrow> ('a world, unit) outcome" where
  "destroy_at p w =
     (case deref w p of
        Some (Some x) \<Rightarrow> Ok (store p None (emit (Destroy x) w)) ()
      | _ \<Rightarrow> Undefined)"

subsection \<open>The standard algorithms the container calls\<close>

text \<open>\<^verbatim>\<open>std::destroy_n(first, n)\<close> and \<^verbatim>\<open>std::destroy(first, last)\<close>\<close>

fun destroy_n :: "ptr \<Rightarrow> nat \<Rightarrow> 'a world \<Rightarrow> ('a world, unit) outcome" where
  "destroy_n p 0 w = Ok w ()"
| "destroy_n p (Suc n) w =
     (case destroy_at p w of
        Ok w' _ \<Rightarrow> destroy_n (ptr_add p 1) n w'
      | Throw w' \<Rightarrow> Throw w' | Terminate \<Rightarrow> Terminate | Undefined \<Rightarrow> Undefined)"

definition destroy :: "ptr \<Rightarrow> ptr \<Rightarrow> 'a world \<Rightarrow> ('a world, unit) outcome" where
  "destroy first lst w =
     (case ptr_diff lst first of None \<Rightarrow> Undefined | Some n \<Rightarrow> destroy_n first n w)"

text \<open>
  \<^verbatim>\<open>std::uninitialized_copy_n(first, n, result)\<close>: element \<open>k\<close> of the source is
  copy-constructed into slot \<open>k\<close> of the result; when a constructor throws, the \<open>k\<close>
  elements built so far are destroyed and the exception goes on.
\<close>

fun uninitialized_copy_loop ::
  "'a elem_type \<Rightarrow> ptr \<Rightarrow> ptr \<Rightarrow> nat \<Rightarrow> nat \<Rightarrow> 'a world \<Rightarrow> ('a world, unit) outcome" where
  "uninitialized_copy_loop T first result k 0 w = Ok w ()"
| "uninitialized_copy_loop T first result k (Suc n) w =
     (case copy_construct_at T (ptr_add result k) (ptr_add first k) w of
        Ok w' _ \<Rightarrow> uninitialized_copy_loop T first result (Suc k) n w'
      | Throw w' \<Rightarrow> bnd (destroy_n result k w') (\<lambda>w'' _. Throw w'')
      | Terminate \<Rightarrow> Terminate | Undefined \<Rightarrow> Undefined)"

definition uninitialized_copy_n ::
  "'a elem_type \<Rightarrow> ptr \<Rightarrow> nat \<Rightarrow> ptr \<Rightarrow> 'a world \<Rightarrow> ('a world, unit) outcome" where
  "uninitialized_copy_n T first n result w = uninitialized_copy_loop T first result 0 n w"

text \<open>\<^verbatim>\<open>std::uninitialized_move_n(first, n, result)\<close>\<close>

fun uninitialized_move_loop ::
  "'a elem_type \<Rightarrow> ptr \<Rightarrow> ptr \<Rightarrow> nat \<Rightarrow> nat \<Rightarrow> 'a world \<Rightarrow> ('a world, unit) outcome" where
  "uninitialized_move_loop T first result k 0 w = Ok w ()"
| "uninitialized_move_loop T first result k (Suc n) w =
     (case move_construct_at T (ptr_add result k) (ptr_add first k) w of
        Ok w' _ \<Rightarrow> uninitialized_move_loop T first result (Suc k) n w'
      | Throw w' \<Rightarrow> bnd (destroy_n result k w') (\<lambda>w'' _. Throw w'')
      | Terminate \<Rightarrow> Terminate | Undefined \<Rightarrow> Undefined)"

definition uninitialized_move_n ::
  "'a elem_type \<Rightarrow> ptr \<Rightarrow> nat \<Rightarrow> ptr \<Rightarrow> 'a world \<Rightarrow> ('a world, unit) outcome" where
  "uninitialized_move_n T first n result w = uninitialized_move_loop T first result 0 n w"

text \<open>\<^verbatim>\<open>std::uninitialized_value_construct_n(first, n)\<close> and its iterator-pair form\<close>

fun uninitialized_value_construct_loop ::
  "'a elem_type \<Rightarrow> ptr \<Rightarrow> nat \<Rightarrow> nat \<Rightarrow> 'a world \<Rightarrow> ('a world, unit) outcome" where
  "uninitialized_value_construct_loop T first k 0 w = Ok w ()"
| "uninitialized_value_construct_loop T first k (Suc n) w =
     (case value_construct_at T (ptr_add first k) w of
        Ok w' _ \<Rightarrow> uninitialized_value_construct_loop T first (Suc k) n w'
      | Throw w' \<Rightarrow> bnd (destroy_n first k w') (\<lambda>w'' _. Throw w'')
      | Terminate \<Rightarrow> Terminate | Undefined \<Rightarrow> Undefined)"

definition uninitialized_value_construct_n ::
  "'a elem_type \<Rightarrow> ptr \<Rightarrow> nat \<Rightarrow> 'a world \<Rightarrow> ('a world, unit) outcome" where
  "uninitialized_value_construct_n T first n w = uninitialized_value_construct_loop T first 0 n w"

definition uninitialized_value_construct ::
  "'a elem_type \<Rightarrow> ptr \<Rightarrow> ptr \<Rightarrow> 'a world \<Rightarrow> ('a world, unit) outcome" where
  "uninitialized_value_construct T first lst w =
     (case ptr_diff lst first of None \<Rightarrow> Undefined
      | Some n \<Rightarrow> uninitialized_value_construct_n T first n w)"

text \<open>\<^verbatim>\<open>std::copy(first, last, result)\<close>: copy assignment, front to back.\<close>

fun copy_loop ::
  "'a elem_type \<Rightarrow> ptr \<Rightarrow> ptr \<Rightarrow> nat \<Rightarrow> 'a world \<Rightarrow> ('a world, unit) outcome" where
  "copy_loop T first result 0 w = Ok w ()"
| "copy_loop T first result (Suc n) w =
     (case copy_assign_at T result first w of
        Ok w' _ \<Rightarrow> copy_loop T (ptr_add first 1) (ptr_add result 1) n w'
      | Throw w' \<Rightarrow> Throw w' | Terminate \<Rightarrow> Terminate | Undefined \<Rightarrow> Undefined)"

definition std_copy ::
  "'a elem_type \<Rightarrow> ptr \<Rightarrow> ptr \<Rightarrow> ptr \<Rightarrow> 'a world \<Rightarrow> ('a world, unit) outcome" where
  "std_copy T first lst result w =
     (case ptr_diff lst first of None \<Rightarrow> Undefined | Some n \<Rightarrow> copy_loop T first result n w)"

text \<open>
  \<^verbatim>\<open>std::move_backward(first, last, d_last)\<close>:
  \<^verbatim>\<open>while (first != last) *(--d_last) = std::move(*(--last));\<close>
\<close>

fun move_backward_loop ::
  "'a elem_type \<Rightarrow> ptr \<Rightarrow> ptr \<Rightarrow> nat \<Rightarrow> 'a world \<Rightarrow> ('a world, unit) outcome" where
  "move_backward_loop T lst d_lst 0 w = Ok w ()"
| "move_backward_loop T lst d_lst (Suc n) w =
     (case (ptr_dec lst, ptr_dec d_lst) of
        (Some l, Some d) \<Rightarrow>
          (case move_assign_at T d l w of
             Ok w' _ \<Rightarrow> move_backward_loop T l d n w'
           | Throw w' \<Rightarrow> Throw w' | Terminate \<Rightarrow> Terminate | Undefined \<Rightarrow> Undefined)
      | _ \<Rightarrow> Undefined)"

definition move_backward ::
  "'a elem_type \<Rightarrow> ptr \<Rightarrow> ptr \<Rightarrow> ptr \<Rightarrow> 'a world \<Rightarrow> ('a world, unit) outcome" where
  "move_backward T first lst d_lst w =
     (case ptr_diff lst first of None \<Rightarrow> Undefined
      | Some n \<Rightarrow> move_backward_loop T lst d_lst n w)"

section \<open>RawMemory\<close>

text \<open>\<^verbatim>\<open>Allocate(n)\<close>: a fresh block of \<open>n\<close> uninitialised slots, or the null pointer for \<open>n = 0\<close>.\<close>

definition Allocate :: "nat \<Rightarrow> 'a world \<Rightarrow> ptr \<times> 'a world" where
  "Allocate n w =
     (if n \<noteq> 0 then
        (Ptr (brk w) 0,
         w\<lparr>blocks := (blocks w)(brk w := Some n),
           mem := (mem w)(brk w := (\<lambda>_. None)),
           brk := Suc (brk w)\<rparr>)
      else (Null, w))"

text \<open>
  \<^verbatim>\<open>Deallocate(buf)\<close>: \<^verbatim>\<open>operator delete\<close> runs no destructor, so the elements still
  live in the block are counted as leaked.
\<close>

definition Deallocate :: "ptr \<Rightarrow> 'a world \<Rightarrow> ('a world, unit) outcome" where
  "Deallocate buf w =
     (case buf of
        Null \<Rightarrow> Ok w ()
      | Ptr a i \<Rightarrow>
          (case blocks w a of
             None \<Rightarrow> Undefined
           | Some n \<Rightarrow>
               if i = 0 then
                 Ok (w\<lparr>blocks := (blocks w)(a := None),
                       leaked := leaked w + length (filter (\<lambda>j. mem w a j \<noteq> None) [0..<n])\<rparr>) ()
               else Undefined))"

definition RawMemory_default :: RawMemory where
  "RawMemory_default = \<lparr>m_buffer = Null, m_capacity = 0\<rparr>"

definition RawMemory_ctor :: "nat \<Rightarrow> 'a world \<Rightarrow> RawMemory \<times> 'a world" where
  "RawMemory_ctor capacity w =
     (let (p, w') = Allocate capacity w in (\<lparr>m_buffer = p, m_capacity = capacity\<rparr>, w'))"

definition RawMemory_dtor :: "RawMemory \<Rightarrow> 'a world \<Rightarrow> ('a world, unit) outcome" where
  "RawMemory_dtor m w = Deallocate (m_buffer m) w"

text \<open>\<^verbatim>\<open>operator+(offset)\<close> with its \<^verbatim>\<open>assert(offset <= capacity_)\<close>\<close>

definition RawMemory_plus :: "RawMemory \<Rightarrow> nat \<Rightarrow> ptr option" where
  "RawMemory_plus m offset =
     (if offset \<le> m_capacity m then Some (ptr_add (m_buffer m) offset) else None)"

text \<open>\<^verbatim>\<open>operator[](index)\<close> with its \<^verbatim>\<open>assert(index < capacity_)\<close>\<close>

definition RawMemory_index :: "RawMemory \<Rightarrow> nat \<Rightarrow> ptr option" where
  "RawMemory_index m index =
     (if index < m_capacity m then Some (ptr_add (m_buffer m) index) else None)"

definition GetAddress :: "RawMemory \<Rightarrow> ptr" where
  "GetAddress m = m_buffer m"

definition RawMemory_Capacity :: "RawMemory \<Rightarrow> nat" where
  "RawMemory_Capacity m = m_capacity m"

section \<open>Vector\<close>

definition set_data :: "nat \<Rightarrow> RawMemory \<Rightarrow> 'a world \<Rightarrow> 'a world" where
  "set_data this m w = w\<lparr>vecs := (vecs w)(this := (vecs w this)\<lparr>m_data := m\<rparr>)\<rparr>"

definition set_size :: "nat \<Rightarrow> nat \<Rightarrow> 'a world \<Rightarrow> 'a world" where
  "set_size this n w = w\<lparr>vecs := (vecs w)(this := (vecs w this)\<lparr>m_size := n\<rparr>)\<rparr>"

definition Size :: "'a world \<Rightarrow> nat \<Rightarrow> nat" where
  "Size w this = m_size (vecs w this)"

definition Capacity :: "'a world \<Rightarrow> nat \<Rightarrow> nat" where
  "Capacity w this = RawMemory_Capacity (m_data (vecs w this))"

definition Vector_begin :: "'a world \<Rightarrow> nat \<Rightarrow> ptr" where
  "Vector_begin w this = GetAddress (m_data (vecs w this))"

definition Vector_end :: "'a world \<Rightarrow> nat \<Rightarrow> ptr option" where
  "Vector_end w this = RawMemory_plus (m_data (vecs w this)) (m_size (vecs w this))"


text \<open>
  \<^verbatim>\<open>CanMove()\<close> and \<^verbatim>\<open>MoveOrCopyN\<close>. The first listing writes the body of
  \<^verbatim>\<open>MoveOrCopyN\<close> out at each of its uses.
\<close>

definition CanMove :: "'a elem_type \<Rightarrow> bool" where
  "CanMove T = (nothrow_move_constructible T \<or> \<not> copy_constructible T)"

definition MoveOrCopyN ::
  "'a elem_type \<Rightarrow> ptr \<Rightarrow> nat \<Rightarrow> ptr \<Rightarrow> 'a world \<Rightarrow> ('a world, unit) outcome" where
  "MoveOrCopyN T first n result w =
     (if CanMove T then uninitialized_move_n T first n result w
      else uninitialized_copy_n T first n result w)"

text \<open>
  \<^verbatim>\<open>Swap(other)\<close>: \<^verbatim>\<open>std::swap(data_, other.data_); std::swap(size_, other.size_);\<close>
  The second write of each exchange reads the object after the first write, so that
  an object swapped with itself is unchanged.
\<close>

definition Swap :: "nat \<Rightarrow> nat \<Rightarrow> 'a world \<Rightarrow> 'a world" where
  "Swap this other w =
     (let d = m_data (vecs w this); e = m_data (vecs w other);
          w1 = set_data other d (set_data this e w);
          m = m_size (vecs w1 this); n = m_size (vecs w1 other)
      in set_size other m (set_size this n w1))"

text \<open>The constructors and the destructor, for the object at address \<open>this\<close>.\<close>

definition Vector_default :: Vector where
  "Vector_default = \<lparr>m_data = RawMemory_default, m_size = 0\<rparr>"

definition Vector_ctor :: "nat \<Rightarrow> 'a world \<Rightarrow> 'a world" where
  "Vector_ctor this w = w\<lparr>vecs := (vecs w)(this := Vector_default)\<rparr>"

definition Vector_ctor_size :: "'a elem_type \<Rightarrow> nat \<Rightarrow> nat \<Rightarrow> 'a world \<Rightarrow> ('a world, unit) outcome" where
  "Vector_ctor_size T this n w =
     (let (m, w1) = RawMemory_ctor n w;
          w2 = w1\<lparr>vecs := (vecs w1)(this := \<lparr>m_data = m, m_size = n\<rparr>)\<rparr>
      in unwind (uninitialized_value_construct_n T (GetAddress m) n w2) (RawMemory_dtor m))"

definition Vector_ctor_copy :: "'a elem_type \<Rightarrow> nat \<Rightarrow> nat \<Rightarrow> 'a world \<Rightarrow> ('a world, unit) outcome" where
  "Vector_ctor_copy T this other w =
     (let n = m_size (vecs w other);
          (m, w1) = RawMemory_ctor n w;
          w2 = w1\<lparr>vecs := (vecs w1)(this := \<lparr>m_data = m, m_size = n\<rparr>)\<rparr>
      in unwind (uninitialized_copy_n T (GetAddress (m_data (vecs w2 other))) n (GetAddress m) w2)
           (RawMemory_dtor m))"

definition Vector_ctor_move :: "nat \<Rightarrow> nat \<Rightarrow> 'a world \<Rightarrow> 'a world" where
  "Vector_ctor_move this other w = Swap this other (Vector_ctor this w)"

definition Vector_dtor :: "nat \<Rightarrow> 'a world \<Rightarrow> ('a world, unit) outcome" where
  "Vector_dtor this w =
     (let v = vecs w this in
      bnd (destroy_n (GetAddress (m_data v)) (m_size v) w) (\<lambda>w1 _. RawMemory_dtor (m_data v) w1))"

text \<open>\<^verbatim>\<open>operator=(Vector&& rhs) noexcept\<close>\<close>

definition move_assign :: "nat \<Rightarrow> nat \<Rightarrow> 'a world \<Rightarrow> 'a world" where
  "move_assign this rhs w = Swap this rhs w"

text \<open>
  \<^verbatim>\<open>Reserve(new_capacity)\<close>. The local \<^verbatim>\<open>new_data\<close> is destroyed on both ways out: with
  the new block when an exception passes, with the old block after
  \<^verbatim>\<open>data_.Swap(new_data)\<close>.
\<close>

definition Reserve :: "'a elem_type \<Rightarrow> nat \<Rightarrow> nat \<Rightarrow> 'a world \<Rightarrow> ('a world, unit) outcome" where
  "Reserve T this new_capacity w =
     (let v = vecs w this in
      if new_capacity \<le> RawMemory_Capacity (m_data v) then Ok w ()
      else
        (let (new_data, w0) = RawMemory_ctor new_capacity w in
         bnd (unwind
                (bnd (MoveOrCopyN T (GetAddress (m_data v)) (m_size v) (GetAddress new_data) w0) (\<lambda>w1 _.
                 destroy_n (GetAddress (m_data v)) (m_size v) w1))
                (RawMemory_dtor new_data))
           (\<lambda>w2 _. RawMemory_dtor (m_data v) (set_data this new_data w2))))"

definition Resize :: "'a elem_type \<Rightarrow> nat \<Rightarrow> nat \<Rightarrow> 'a world \<Rightarrow> ('a world, unit) outcome" where
  "Resize T this new_size w =
     (let v = vecs w this in
      if m_size v = new_size then Ok w ()
      else
        bnd (if new_size < m_size v then
               destroy (ptr_add (GetAddress (m_data v)) new_size)
                       (ptr_add (GetAddress (m_data v)) (m_size v)) w
             else
               bnd (Reserve T this new_size w) (\<lambda>w1 _.
                 let u = vecs w1 this in
                 uninitialized_value_construct T (ptr_add (GetAddress (m_data u)) (m_size u))
                   (ptr_add (GetAddress (m_data u)) new_size) w1))
          (\<lambda>w2 _. Ok (set_size this new_size w2) ()))"

text \<open>\<^verbatim>\<open>PopBack()\<close>: \<^verbatim>\<open>std::destroy_at(data_ + size_ - 1); --size_;\<close>\<close>

definition PopBack :: "nat \<Rightarrow> 'a world \<Rightarrow> ('a world, unit) outcome" where
  "PopBack this w =
     (let v = vecs w this in
      at (case RawMemory_plus (m_data v) (m_size v) of None \<Rightarrow> None | Some e \<Rightarrow> ptr_dec e) (\<lambda>p.
      bnd (destroy_at p w) (\<lambda>w1 _.
      Ok (set_size this (m_size v - 1) w1) ())))"

subsection \<open>Insertion, first listing (lines 160-194 and 244-291)\<close>

text \<open>\<^verbatim>\<open>data_[size_ - 1]\<close> and \<^verbatim>\<open>data_ + (size_ - 1)\<close>: for \<open>size_ = 0\<close> the index wraps
  around and fails the \<^verbatim>\<open>assert\<close>.\<close>

definition RawMemory_index_pred :: "RawMemory \<Rightarrow> nat \<Rightarrow> ptr option" where
  "RawMemory_index_pred m n = (if n = 0 then None else RawMemory_index m (n - 1))"

definition RawMemory_plus_pred :: "RawMemory \<Rightarrow> nat \<Rightarrow> ptr option" where
  "RawMemory_plus_pred m n = (if n = 0 then None else RawMemory_plus m (n - 1))"

text \<open>\<^verbatim>\<open>data_ + size_ - 1\<close>: one step back from \<^verbatim>\<open>data_ + size_\<close>.\<close>

definition RawMemory_plus_dec :: "RawMemory \<Rightarrow> nat \<Rightarrow> ptr option" where
  "RawMemory_plus_dec m n = (case RawMemory_plus m n of None \<Rightarrow> None | Some e \<Rightarrow> ptr_dec e)"

text \<open>What a call of \<^verbatim>\<open>PushBack\<close> or \<^verbatim>\<open>EmplaceBack\<close> yields: nothing (\<^verbatim>\<open>void\<close>) or a \<^verbatim>\<open>T&\<close>.\<close>

datatype ret = Void | Ref ptr

definition EmplaceBack_v1 :: "'a elem_type \<Rightarrow> nat \<Rightarrow> 'a init \<Rightarrow> 'a world \<Rightarrow> ('a world, ret) outcome" where
  "EmplaceBack_v1 T this a w =
     (let v = vecs w this in
      bnd (if m_size v < RawMemory_Capacity (m_data v) then
             at (RawMemory_plus (m_data v) (m_size v)) (\<lambda>p. construct_at T p a w)
           else
             (let new_capacity = (if m_size v = 0 then 1 else m_size v * 2);
                  (new_data, w0) = RawMemory_ctor new_capacity w
              in
              bnd (unwind
                     (bnd (at (RawMemory_plus new_data (m_size v)) (\<lambda>p. construct_at T p a w0)) (\<lambda>w1 _.
                      bnd (unwind
                             (if CanMove T then
                                uninitialized_move_n T (GetAddress (m_data v)) (m_size v) (GetAddress new_data) w1
                              else
                                uninitialized_copy_n T (GetAddress (m_data v)) (m_size v) (GetAddress new_data) w1)
                             (\<lambda>w'. at (RawMemory_plus new_data (m_size v)) (\<lambda>p. destroy_at p w'))) (\<lambda>w2 _.
                      destroy_n (GetAddress (m_data v)) (m_size v) w2)))
                     (RawMemory_dtor new_data))
                (\<lambda>w3 _. RawMemory_dtor (m_data v) (set_data this new_data w3))))
        (\<lambda>w4 _.
           let w5 = set_size this (m_size (vecs w4 this) + 1) w4 in
           at (RawMemory_index_pred (m_data (vecs w5 this)) (m_size (vecs w5 this))) (\<lambda>p. Ok w5 (Ref p))))"

text \<open>\<^verbatim>\<open>void PushBack(const T& value)\<close> and \<^verbatim>\<open>void PushBack(T&& value) noexcept\<close>\<close>

definition noexcept :: "('w, 'r) outcome \<Rightarrow> ('w, 'r) outcome" where
  "noexcept m = (case m of Throw w \<Rightarrow> Terminate | other \<Rightarrow> other)"

definition PushBack_copy_v1 :: "'a elem_type \<Rightarrow> nat \<Rightarrow> 'a \<Rightarrow> 'a world \<Rightarrow> ('a world, ret) outcome" where
  "PushBack_copy_v1 T this x w = bnd (EmplaceBack_v1 T this (Copy x) w) (\<lambda>w' _. Ok w' Void)"

definition PushBack_move_v1 :: "'a elem_type \<Rightarrow> nat \<Rightarrow> 'a \<Rightarrow> 'a world \<Rightarrow> ('a world, ret) outcome" where
  "PushBack_move_v1 T this x w =
     noexcept (bnd (EmplaceBack_v1 T this (Move x) w) (\<lambda>w' _. Ok w' Void))"

text \<open>
  The branch of \<^verbatim>\<open>Emplace\<close> that inserts in place (lines 252-261, and lines 635-643 of
  the second listing). The local \<^verbatim>\<open>tmp\<close> is destroyed on every way out.
\<close>

definition insert_in_place ::
  "'a elem_type \<Rightarrow> RawMemory \<Rightarrow> nat \<Rightarrow> nat \<Rightarrow> ptr option \<Rightarrow> 'a init \<Rightarrow> 'a world \<Rightarrow> ('a world, unit) outcome" where
  "insert_in_place T d n index before_end a w =
     bnd (construct_local T a w) (\<lambda>w1 tmp.
     bnd (unwind
            (bnd (at (RawMemory_plus d n) (\<lambda>p. at (RawMemory_index_pred d n) (\<lambda>q.
                    move_construct_at T p q w1))) (\<lambda>w2 _.
             bnd (unwind
                    (at (RawMemory_plus d index) (\<lambda>first. at before_end (\<lambda>lst.
                     at (RawMemory_plus d n) (\<lambda>d_lst. move_backward T first lst d_lst w2))))
                    (\<lambda>w'. at (RawMemory_plus d n) (\<lambda>p. destroy_at p w'))) (\<lambda>w3 _.
             at (RawMemory_index d index) (\<lambda>p. move_assign_local T p tmp w3))))
            (\<lambda>w'. Ok (destroy_local tmp w') ()))
       (\<lambda>w4 _. Ok (destroy_local (moved_from T tmp) w4) ()))"

text \<open>
  The branch that reallocates (lines 263-287, and lines 607-623 of the second listing,
  which differ only in the capacity asked for).
\<close>

definition insert_reallocating ::
  "'a elem_type \<Rightarrow> nat \<Rightarrow> nat \<Rightarrow> nat \<Rightarrow> 'a init \<Rightarrow> 'a world \<Rightarrow> ('a world, unit) outcome" where
  "insert_reallocating T this new_capacity index a w =
     (let v = vecs w this;
          (new_data, w0) = RawMemory_ctor new_capacity w
      in
      bnd (unwind
             (bnd (at (RawMemory_plus new_data index) (\<lambda>p. construct_at T p a w0)) (\<lambda>w1 _.
              bnd (unwind
                     (MoveOrCopyN T (GetAddress (m_data v)) index (GetAddress new_data) w1)
                     (\<lambda>w'. at (RawMemory_plus new_data index) (\<lambda>p. destroy_at p w'))) (\<lambda>w2 _.
              bnd (unwind
                     (MoveOrCopyN T (ptr_add (GetAddress (m_data v)) index) (m_size v - index)
                        (ptr_add (GetAddress new_data) (index + 1)) w2)
                     (destroy_n (GetAddress new_data) (index + 1))) (\<lambda>w3 _.
              destroy_n (GetAddress (m_data v)) (m_size v) w3))))
             (RawMemory_dtor new_data))
        (\<lambda>w4 _. RawMemory_dtor (m_data v) (set_data this new_data w4)))"

definition Emplace_v1 :: "'a elem_type \<Rightarrow> nat \<Rightarrow> ptr \<Rightarrow> 'a init \<Rightarrow> 'a world \<Rightarrow> ('a world, ptr) outcome" where
  "Emplace_v1 T this pos a w =
     at (Vector_end w this) (\<lambda>e.
       if pos = e then
         bnd (EmplaceBack_v1 T this a w) (\<lambda>w1 _.
           at (case Vector_end w1 this of None \<Rightarrow> None | Some e1 \<Rightarrow> ptr_dec e1) (\<lambda>p. Ok w1 p))
       else
         (case ptr_diff pos (Vector_begin w this) of
            None \<Rightarrow> Undefined
          | Some index \<Rightarrow>
              (let v = vecs w this in
               bnd (if m_size v < RawMemory_Capacity (m_data v) then
                      insert_in_place T (m_data v) (m_size v) index
                        (RawMemory_plus_dec (m_data v) (m_size v)) a w
                    else
                      insert_reallocating T this (m_size v * 2) index a w)
                 (\<lambda>w1 _.
                    let w2 = set_size this (m_size (vecs w1 this) + 1) w1 in
                    Ok w2 (ptr_add (GetAddress (m_data (vecs w2 this))) index)))))"

definition Insert_copy_v1 :: "'a elem_type \<Rightarrow> nat \<Rightarrow> ptr \<Rightarrow> 'a \<Rightarrow> 'a world \<Rightarrow> ('a world, ptr) outcome" where
  "Insert_copy_v1 T this pos x w = Emplace_v1 T this pos (Copy x) w"

definition Insert_move_v1 :: "'a elem_type \<Rightarrow> nat \<Rightarrow> ptr \<Rightarrow> 'a \<Rightarrow> 'a world \<Rightarrow> ('a world, ptr) outcome" where
  "Insert_move_v1 T this pos x w = Emplace_v1 T this pos (Move x) w"

subsection \<open>Insertion, second listing (lines 495-506, 552-562 and 604-655)\<close>

definition InsertWithReallocation ::
  "'a elem_type \<Rightarrow> nat \<Rightarrow> nat \<Rightarrow> 'a init \<Rightarrow> 'a world \<Rightarrow> ('a world, unit) outcome" where
  "InsertWithReallocation T this index a w =
     (let n = m_size (vecs w this) in
      insert_reallocating T this (if n = 0 then 1 else n * 2) index a w)"

definition InsertWithoutReallocation ::
  "'a elem_type \<Rightarrow> nat \<Rightarrow> nat \<Rightarrow> 'a init \<Rightarrow> 'a world \<Rightarrow> ('a world, unit) outcome" where
  "InsertWithoutReallocation T this index a w =
     (let v = vecs w this in
      if index = m_size v then
        at (RawMemory_plus (m_data v) (m_size v)) (\<lambda>p. construct_at T p a w)
      else
        insert_in_place T (m_data v) (m_size v) index
          (RawMemory_plus_pred (m_data v) (m_size v)) a w)"

definition Emplace_v2 :: "'a elem_type \<Rightarrow> nat \<Rightarrow> ptr \<Rightarrow> 'a init \<Rightarrow> 'a world \<Rightarrow> ('a world, ptr) outcome" where
  "Emplace_v2 T this pos a w =
     (case ptr_diff pos (Vector_begin w this) of
        None \<Rightarrow> Undefined
      | Some index \<Rightarrow>
          (let v = vecs w this in
           bnd (if m_size v < RawMemory_Capacity (m_data v) then
                  InsertWithoutReallocation T this index a w
                else
                  InsertWithReallocation T this index a w)
             (\<lambda>w1 _.
                let w2 = set_size this (m_size (vecs w1 this) + 1) w1 in
                Ok w2 (ptr_add (GetAddress (m_data (vecs w2 this))) index))))"

text \<open>\<^verbatim>\<open>return *Emplace(end(), std::forward<Args>(args)...);\<close>\<close>

definition EmplaceBack_v2 :: "'a elem_type \<Rightarrow> nat \<Rightarrow> 'a init \<Rightarrow> 'a world \<Rightarrow> ('a world, ret) outcome" where
  "EmplaceBack_v2 T this a w =
     at (Vector_end w this) (\<lambda>e.
     bnd (Emplace_v2 T this e a w) (\<lambda>w1 p.
       case deref w1 p of Some (Some _) \<Rightarrow> Ok w1 (Ref p) | _ \<Rightarrow> Undefined))"

definition PushBack_copy_v2 :: "'a elem_type \<Rightarrow> nat \<Rightarrow> 'a \<Rightarrow> 'a world \<Rightarrow> ('a world, ret) outcome" where
  "PushBack_copy_v2 T this x w = bnd (EmplaceBack_v2 T this (Copy x) w) (\<lambda>w' _. Ok w' Void)"

definition PushBack_move_v2 :: "'a elem_type \<Rightarrow> nat \<Rightarrow> 'a \<Rightarrow> 'a world \<Rightarrow> ('a world, ret) outcome" where
  "PushBack_move_v2 T this x w =
     noexcept (bnd (EmplaceBack_v2 T this (Move x) w) (\<lambda>w' _. Ok w' Void))"

definition Insert_copy_v2 :: "'a elem_type \<Rightarrow> nat \<Rightarrow> ptr \<Rightarrow> 'a \<Rightarrow> 'a world \<Rightarrow> ('a world, ptr) outcome" where
  "Insert_copy_v2 T this pos x w = Emplace_v2 T this pos (Copy x) w"

definition Insert_move_v2 :: "'a elem_type \<Rightarrow> nat \<Rightarrow> ptr \<Rightarrow> 'a \<Rightarrow> 'a world \<Rightarrow> ('a world, ptr) outcome" where
  "Insert_move_v2 T this pos x w = Emplace_v2 T this pos (Move x) w"

subsection \<open>Erase (lines 293-305; the same at lines 564-576)\<close>

text \<open>
  \<^verbatim>\<open>for (auto i = index; i != size_ - 1; ++i) data_[i] = std::forward<T>(data_[i + 1]);\<close>
  A start after \<open>size_ - 1\<close> runs until \<^verbatim>\<open>data_[i + 1]\<close> fails its \<^verbatim>\<open>assert\<close>.
\<close>

function erase_loop ::
  "'a elem_type \<Rightarrow> RawMemory \<Rightarrow> nat \<Rightarrow> nat \<Rightarrow> 'a world \<Rightarrow> ('a world, unit) outcome" where
  "erase_loop T d n i w =
     (if i = n - 1 then Ok w ()
      else if i + 1 < m_capacity d then
        (case move_assign_at T (ptr_add (m_buffer d) i) (ptr_add (m_buffer d) (i + 1)) w of
           Ok w' _ \<Rightarrow> erase_loop T d n (Suc i) w'
         | Throw w' \<Rightarrow> Throw w' | Terminate \<Rightarrow> Terminate | Undefined \<Rightarrow> Undefined)
      else Undefined)"
  by pat_completeness auto
termination
  by (relation "measure (\<lambda>(T, d, n, i, w). m_capacity d - i)") auto

definition Erase :: "'a elem_type \<Rightarrow> nat \<Rightarrow> ptr \<Rightarrow> 'a world \<Rightarrow> ('a world, ptr) outcome" where
  "Erase T this pos w =
     (let v = vecs w this in
      at (RawMemory_plus_dec (m_data v) (m_size v)) (\<lambda>back.
        if pos = back then
          bnd (PopBack this w) (\<lambda>w1 _. at (Vector_end w1 this) (\<lambda>e. Ok w1 e))
        else
          (case ptr_diff pos (Vector_begin w this) of
             None \<Rightarrow> Undefined
           | Some index \<Rightarrow>
               bnd (erase_loop T (m_data v) (m_size v) index w) (\<lambda>w1 _.
               bnd (destroy_at back w1) (\<lambda>w2 _.
                 let w3 = set_size this (m_size v - 1) w2 in
                 at (RawMemory_plus (m_data (vecs w3 this)) index) (\<lambda>p. Ok w3 p))))))"

subsection \<open>Copy assignment (lines 110-127 and 446-462)\<close>

text \<open>
  \<open>tmp\<close> is the address of the local \<^verbatim>\<open>rhs_copy\<close>. The result is \<^verbatim>\<open>*this\<close>.
\<close>

definition copy_assign_v1 ::
  "'a elem_type \<Rightarrow> nat \<Rightarrow> nat \<Rightarrow> nat \<Rightarrow> 'a world \<Rightarrow> ('a world, nat) outcome" where
  "copy_assign_v1 T tmp this rhs w =
     (if this \<noteq> rhs then
        (let r = vecs w rhs; v = vecs w this in
         if m_size r > RawMemory_Capacity (m_data v) then
           bnd (Vector_ctor_copy T tmp rhs w) (\<lambda>w1 _.
           bnd (Vector_dtor tmp (Swap this tmp w1)) (\<lambda>w2 _. Ok w2 this))
         else
           bnd (if m_size r \<le> m_size v then
                  bnd (std_copy T (GetAddress (m_data r)) (ptr_add (GetAddress (m_data r)) (m_size r))
                         (GetAddress (m_data v)) w) (\<lambda>w1 _.
                  destroy_n (ptr_add (GetAddress (m_data v)) (m_size r)) (m_size v - m_size r) w1)
                else
                  bnd (std_copy T (GetAddress (m_data r)) (ptr_add (GetAddress (m_data r)) (m_size v))
                         (GetAddress (m_data v)) w) (\<lambda>w1 _.
                  uninitialized_copy_n T (ptr_add (GetAddress (m_data r)) (m_size v))
                    (m_size r - m_size v) (ptr_add (GetAddress (m_data v)) (m_size v)) w1))
             (\<lambda>w2 _. Ok (set_size this (m_size r) w2) this))
      else Ok w this)"

definition copy_assign_v2 ::
  "'a elem_type \<Rightarrow> nat \<Rightarrow> nat \<Rightarrow> nat \<Rightarrow> 'a world \<Rightarrow> ('a world, nat) outcome" where
  "copy_assign_v2 T tmp this rhs w =
     (if this \<noteq> rhs then
        (let r = vecs w rhs; v = vecs w this in
         if m_size r > RawMemory_Capacity (m_data v) then
           bnd (Vector_ctor_copy T tmp rhs w) (\<lambda>w1 _.
           bnd (Vector_dtor tmp (Swap this tmp w1)) (\<lambda>w2 _. Ok w2 this))
         else
           bnd (std_copy T (GetAddress (m_data r))
                  (ptr_add (GetAddress (m_data r)) (min (m_size r) (m_size v)))
                  (GetAddress (m_data v)) w) (\<lambda>w1 _.
           bnd (if m_size r \<le> m_size v then
                  destroy_n (ptr_add (GetAddress (m_data v)) (m_size r)) (m_size v - m_size r) w1
                else
                  uninitialized_copy_n T (ptr_add (GetAddress (m_data r)) (m_size v))
                    (m_size r - m_size v) (ptr_add (GetAddress (m_data v)) (m_size v)) w1)
             (\<lambda>w2 _. Ok (set_size this (m_size r) w2) this)))
      else Ok w this)"

section \<open>Reading a vector\<close>

text \<open>
  The slots of the vector's block, front to back, and the first \<open>Size\<close> of them: the
  elements. \<open>valid\<close> is the class invariant: the buffer is null with capacity 0, or it
  is the start of an allocated block of \<open>capacity\<close> slots whose first \<open>size\<close> slots
  hold live elements and whose other slots are uninitialised.
\<close>

definition cells :: "'a world \<Rightarrow> nat \<Rightarrow> 'a option list" where
  "cells w this =
     (case m_buffer (m_data (vecs w this)) of
        Null \<Rightarrow> []
      | Ptr a i \<Rightarrow> map (\<lambda>j. mem w a (i + j)) [0..<m_capacity (m_data (vecs w this))])"

definition elems :: "'a world \<Rightarrow> nat \<Rightarrow> 'a option list" where
  "elems w this = take (Size w this) (cells w this)"

definition valid :: "'a world \<Rightarrow> nat \<Rightarrow> bool" where
  "valid w this =
     (let v = vecs w this; d = m_data v in
      m_size v \<le> m_capacity d \<and>
      (case m_buffer d of
         Null \<Rightarrow> m_capacity d = 0
       | Ptr a i \<Rightarrow>
           i = 0 \<and> 0 < m_capacity d \<and> a < brk w \<and> blocks w a = Some (m_capacity d) \<and>
           list_all (\<lambda>j. mem w a j \<noteq> None) [0..<m_size v] \<and>
           list_all (\<lambda>j. mem w a j = None) [m_size v..<m_capacity d]))"

section \<open>Concrete element types and worlds\<close>

text \<open>
  An element type that never throws; one whose second copy assignment throws; one whose
  move constructor throws; one whose move assignment throws; one whose second copy
  construction throws. Then the world with no vector constructed, and a world with
  the vector \<open>[1, 2]\<close> at address 0, the vector \<open>[3, 4]\<close> at address 1 (both of capacity
  2), and default-constructed vectors elsewhere.
\<close>

definition T_nat :: "nat elem_type" where
  "T_nat = \<lparr>nothrow_move_constructible = True, copy_constructible = True,
            throws = (\<lambda>_ _. False), moved_from = (\<lambda>x. x), value_init = 0\<rparr>"


definition T_throwing_move :: "nat elem_type" where
  "T_throwing_move = \<lparr>nothrow_move_constructible = False, copy_constructible = True,
            throws = (\<lambda>h e. case e of MoveConstruct _ \<Rightarrow> True | _ \<Rightarrow> False),
            moved_from = (\<lambda>x. x), value_init = 0\<rparr>"

definition T_throwing_assign :: "nat elem_type" where
  "T_throwing_assign = \<lparr>nothrow_move_constructible = True, copy_constructible = True,
            throws = (\<lambda>h e. case e of MoveAssign _ _ \<Rightarrow> True | _ \<Rightarrow> False),
            moved_from = (\<lambda>x. x), value_init = 0\<rparr>"



definition w_two :: "nat world" where
  "w_two = \<lparr>blocks = (\<lambda>_. None)(0 := Some 2, 1 := Some 2),
            mem = (\<lambda>_ _. None)(0 := (\<lambda>_. None)(0 := Some 1, 1 := Some 2),
                                  1 := (\<lambda>_. None)(0 := Some 3, 1 := Some 4)),
            brk = 2,
            vecs = (\<lambda>_. Vector_default)
                     (0 := \<lparr>m_data = \<lparr>m_buffer = Ptr 0 0, m_capacity = 2\<rparr>, m_size = 2\<rparr>,
                      1 := \<lparr>m_data = \<lparr>m_buffer = Ptr 1 0, m_capacity = 2\<rparr>, m_size = 2\<rparr>),
            events = [], leaked = 0\<rparr>"


section \<open>How an operation leaves the world\<close>

text \<open>
  \<open>ends P m\<close>: when the outcome \<open>m\<close> leaves a world behind (normally or with an
  exception), that world satisfies \<open>P\<close>. \<open>proper P E m\<close>: the outcome is a normal end in
  a world and with a result that satisfy \<open>P\<close>, or an exception in a world that satisfies
  \<open>E\<close>; it is neither \<^verbatim>\<open>std::terminate\<close> nor undefined behaviour.
  \<open>mem_only w w'\<close>: the world \<open>w'\<close> differs from \<open>w\<close> at most in the slots of memory and
  in the events.
\<close>

definition ends :: "('w \<Rightarrow> bool) \<Rightarrow> ('w, 'r) outcome \<Rightarrow> bool" where
  "ends P m = (case m of Ok w r \<Rightarrow> P w | Throw w \<Rightarrow> P w | _ \<Rightarrow> True)"

definition proper :: "('w \<Rightarrow> 'r \<Rightarrow> bool) \<Rightarrow> ('w \<Rightarrow> bool) \<Rightarrow> ('w, 'r) outcome \<Rightarrow> bool" where
  "proper P E m = (case m of Ok w r \<Rightarrow> P w r | Throw w \<Rightarrow> E w | _ \<Rightarrow> False)"

definition mem_only :: "'a world \<Rightarrow> 'a world \<Rightarrow> bool" where
  "mem_only w w' =
     (blocks w' = blocks w \<and> brk w' = brk w \<and> vecs w' = vecs w \<and> leaked w' = leaked w)"

text \<open>\<open>frame_only w w'\<close>: as \<open>mem_only\<close>, but the leak count may differ too.\<close>

definition frame_only :: "'a world \<Rightarrow> 'a world \<Rightarrow> bool" where
  "frame_only w w' = (blocks w' = blocks w \<and> brk w' = brk w \<and> vecs w' = vecs w)"

section \<open>Sequences of operations on one vector\<close>

text \<open>
  The operations of the vector at \<open>this\<close> that neither exchange it with another vector
  nor move from it. A position is given as an index \<open>i\<close> and stands for the iterator
  \<^verbatim>\<open>begin() + i\<close> at the time of the call; \<open>OpCopyAssign tmp rhs\<close> is
  \<^verbatim>\<open>*this = rhs\<close>. \<open>run\<close> lists the worlds a caller observes after each operation: a
  caller that catches an exception goes on with the next operation, and nothing is
  observed after \<^verbatim>\<open>std::terminate\<close> or undefined behaviour.
\<close>

datatype 'a op =
    OpReserve nat
  | OpResize nat
  | OpPushBackCopy 'a
  | OpPushBackMove 'a
  | OpEmplaceBack "'a init"
  | OpPopBack
  | OpEmplace nat "'a init"
  | OpInsertCopy nat 'a
  | OpInsertMove nat 'a
  | OpErase nat
  | OpCopyAssign nat nat

definition forget :: "('w, 'r) outcome \<Rightarrow> ('w, unit) outcome" where
  "forget m = bnd m (\<lambda>w _. Ok w ())"

fun apply_op_v1 :: "'a elem_type \<Rightarrow> nat \<Rightarrow> 'a op \<Rightarrow> 'a world \<Rightarrow> ('a world, unit) outcome" where
  "apply_op_v1 T this (OpReserve n) w = Reserve T this n w"
| "apply_op_v1 T this (OpResize n) w = Resize T this n w"
| "apply_op_v1 T this (OpPushBackCopy x) w = forget (PushBack_copy_v1 T this x w)"
| "apply_op_v1 T this (OpPushBackMove x) w = forget (PushBack_move_v1 T this x w)"
| "apply_op_v1 T this (OpEmplaceBack a) w = forget (EmplaceBack_v1 T this a w)"
| "apply_op_v1 T this OpPopBack w = PopBack this w"
| "apply_op_v1 T this (OpEmplace i a) w =
     forget (Emplace_v1 T this (ptr_add (Vector_begin w this) i) a w)"
| "apply_op_v1 T this (OpInsertCopy i x) w =
     forget (Insert_copy_v1 T this (ptr_add (Vector_begin w this) i) x w)"
| "apply_op_v1 T this (OpInsertMove i x) w =
     forget (Insert_move_v1 T this (ptr_add (Vector_begin w this) i) x w)"
| "apply_op_v1 T this (OpErase i) w = forget (Erase T this (ptr_add (Vector_begin w this) i) w)"
| "apply_op_v1 T this (OpCopyAssign tmp rhs) w = forget (copy_assign_v1 T tmp this rhs w)"

fun apply_op_v2 :: "'a elem_type \<Rightarrow> nat \<Rightarrow> 'a op \<Rightarrow> 'a world \<Rightarrow> ('a world, unit) outcome" where
  "apply_op_v2 T this (OpReserve n) w = Reserve T this n w"
| "apply_op_v2 T this (OpResize n) w = Resize T this n w"
| "apply_op_v2 T this (OpPushBackCopy x) w = forget (PushBack_copy_v2 T this x w)"
| "apply_op_v2 T this (OpPushBackMove x) w = forget (PushBack_move_v2 T this x w)"
| "apply_op_v2 T this (OpEmplaceBack a) w = forget (EmplaceBack_v2 T this a w)"
| "apply_op_v2 T this OpPopBack w = PopBack this w"
| "apply_op_v2 T this (OpEmplace i a) w =
     forget (Emplace_v2 T this (ptr_add (Vector_begin w this) i) a w)"
| "apply_op_v2 T this (OpInsertCopy i x) w =
     forget (Insert_copy_v2 T this (ptr_add (Vector_begin w this) i) x w)"
| "apply_op_v2 T this (OpInsertMove i x) w =
     forget (Insert_move_v2 T this (ptr_add (Vector_begin w this) i) x w)"
| "apply_op_v2 T this (OpErase i) w = forget (Erase T this (ptr_add (Vector_begin w this) i) w)"
| "apply_op_v2 T this (OpCopyAssign tmp rhs) w = forget (copy_assign_v2 T tmp this rhs w)"

fun run ::
  "('a op \<Rightarrow> 'a world \<Rightarrow> ('a world, unit) outcome) \<Rightarrow> 'a op list \<Rightarrow> 'a world \<Rightarrow> 'a world list" where
  "run step [] w = []"
| "run step (x # xs) w =
     (case step x w of
        Ok w' _ \<Rightarrow> w' # run step xs w'
      | Throw w' \<Rightarrow> w' # run step xs w'
      | Terminate \<Rightarrow> []
      | Undefined \<Rightarrow> [])"

text \<open>
  \<open>restored w w'\<close>: the world \<open>w'\<close> is the world \<open>w\<close> again but for the events: every
  vector object, every block that existed and its slots are as they were, nothing has
  leaked, and every block allocated since has been released.
\<close>

definition restored :: "'a world \<Rightarrow> 'a world \<Rightarrow> bool" where
  "restored w w' =
     (vecs w' = vecs w \<and> leaked w' = leaked w \<and> brk w \<le> brk w' \<and>
      (\<forall>c<brk w. blocks w' c = blocks w c \<and> mem w' c = mem w c) \<and>
      (\<forall>c. brk w \<le> c \<and> c < brk w' \<longrightarrow> blocks w' c = None))"

text \<open>\<open>raises Q m\<close>: the outcome \<open>m\<close> is an exception only if \<open>Q\<close> holds.\<close>

definition raises :: "bool \<Rightarrow> ('w, 'r) outcome \<Rightarrow> bool" where
  "raises Q m = (case m of Throw w \<Rightarrow> Q | _ \<Rightarrow> True)"

section \<open>Basic rules\<close>

lemma bnd_simps [simp]:
  "bnd (Ok w r) f = f w r" "bnd (Throw w) f = Throw w"
  "bnd Terminate f = Terminate" "bnd Undefined f = Undefined"
  by (simp_all add: bnd_def)

lemma unwind_simps [simp]:
  "unwind (Ok w r) c = Ok w r" "unwind (Throw w) c = bnd (c w) (\<lambda>w' _. Throw w')"
  "unwind Terminate c = Terminate" "unwind Undefined c = Undefined"
  by (simp_all add: unwind_def)

lemma at_simps [simp]: "at None f = Undefined" "at (Some p) f = f p"
  by (simp_all add: at_def)

lemma emit_fields [simp]:
  "blocks (emit e w) = blocks w" "mem (emit e w) = mem w" "brk (emit e w) = brk w"
  "vecs (emit e w) = vecs w" "leaked (emit e w) = leaked w"
  "events (emit e w) = events w @ [e]"
  by (simp_all add: emit_def)

lemma reuse_fields [simp]:
  "reuse None w = w"
  "blocks (reuse s w) = blocks w" "mem (reuse s w) = mem w" "brk (reuse s w) = brk w"
  "vecs (reuse s w) = vecs w" "events (reuse s w) = events w"
  "leaked (reuse (Some y) w) = Suc (leaked w)"
  by (simp_all add: reuse_def split: option.splits)

lemma store_fields [simp]:
  "blocks (store p s w) = blocks w" "brk (store p s w) = brk w"
  "vecs (store p s w) = vecs w" "leaked (store p s w) = leaked w"
  "events (store p s w) = events w"
  by (cases p; simp)+

lemma set_data_fields [simp]:
  "blocks (set_data this m w) = blocks w" "mem (set_data this m w) = mem w"
  "brk (set_data this m w) = brk w" "leaked (set_data this m w) = leaked w"
  "events (set_data this m w) = events w"
  "vecs (set_data this m w) = (vecs w)(this := (vecs w this)\<lparr>m_data := m\<rparr>)"
  by (simp_all add: set_data_def)

lemma set_size_fields [simp]:
  "blocks (set_size this n w) = blocks w" "mem (set_size this n w) = mem w"
  "brk (set_size this n w) = brk w" "leaked (set_size this n w) = leaked w"
  "events (set_size this n w) = events w"
  "vecs (set_size this n w) = (vecs w)(this := (vecs w this)\<lparr>m_size := n\<rparr>)"
  by (simp_all add: set_size_def)

lemma Swap_fields [simp]:
  "blocks (Swap this other w) = blocks w" "mem (Swap this other w) = mem w"
  "brk (Swap this other w) = brk w" "leaked (Swap this other w) = leaked w"
  "events (Swap this other w) = events w"
  by (simp_all add: Swap_def Let_def)

lemma Swap_vecs:
  "vecs (Swap this other w) = (vecs w)(this := vecs w other, other := vecs w this)"
  by (rule ext) (simp add: Swap_def Let_def)

lemma elems_cong:
  "vecs w' this = vecs w other \<Longrightarrow> mem w' = mem w \<Longrightarrow> elems w' this = elems w other"
  by (simp add: elems_def cells_def Size_def split: ptr.splits)

text \<open>
  Claim C5. Move-constructing a vector at \<open>this\<close> from the vector at \<open>other\<close> hands
  over the storage and the size as they are: the new vector has the buffer pointer, the
  size, the capacity and the elements that \<open>other\<close> had, \<open>other\<close> is left with size 0,
  capacity 0 and a null buffer, and no slot of memory is touched and no element
  operation runs (the memory and the events are unchanged, nothing leaks).
\<close>
theorem move_construct_transfers:
  assumes "this \<noteq> other"
  shows "vecs (Vector_ctor_move this other w) this = vecs w other
       \<and> Size (Vector_ctor_move this other w) other = 0
       \<and> Capacity (Vector_ctor_move this other w) other = 0
       \<and> Vector_begin (Vector_ctor_move this other w) other = Null
       \<and> Vector_begin (Vector_ctor_move this other w) this = Vector_begin w other
       \<and> Size (Vector_ctor_move this other w) this = Size w other
       \<and> Capacity (Vector_ctor_move this other w) this = Capacity w other
       \<and> elems (Vector_ctor_move this other w) this = elems w other
       \<and> mem (Vector_ctor_move this other w) = mem w
       \<and> blocks (Vector_ctor_move this other w) = blocks w
       \<and> events (Vector_ctor_move this other w) = events w
       \<and> leaked (Vector_ctor_move this other w) = leaked w"
proof -
  let ?w = "Vector_ctor_move this other w"
  have v: "vecs ?w = (vecs w)(this := vecs w other, other := Vector_default)"
    using assms by (auto simp: Vector_ctor_move_def Vector_ctor_def Swap_vecs)
  have m: "mem ?w = mem w" by (simp add: Vector_ctor_move_def Vector_ctor_def)
  have e: "elems ?w this = elems w other"
    by (rule elems_cong) (use v m assms in auto)
  show ?thesis
    using assms v e
    by (simp add: Size_def Capacity_def Vector_begin_def GetAddress_def RawMemory_Capacity_def
        Vector_default_def RawMemory_default_def)
      (simp add: Vector_ctor_move_def Vector_ctor_def)
qed

theorem move_construct_transfers_witness:
  "(2::nat) \<noteq> 0 \<and> Size (Vector_ctor_move 2 0 w_two) 0 = 0
    \<and> Capacity (Vector_ctor_move 2 0 w_two) 0 = 0
    \<and> elems (Vector_ctor_move 2 0 w_two) 2 = [Some 1, Some 2]
    \<and> events (Vector_ctor_move 2 0 w_two) = []"
proof -
  have h: "(2::nat) \<noteq> 0" by simp
  have e: "elems w_two 0 = [Some 1, Some 2]" "events w_two = []" by code_simp+
  show ?thesis using move_construct_transfers [OF h, of w_two] e by simp
qed

text \<open>
  Claim C6. After the move assignment \<^verbatim>\<open>a = std::move(b)\<close> the vector \<open>a\<close> holds the
  storage, size and capacity that \<open>b\<close> held, and \<open>b\<close> holds what \<open>a\<close> held: an exchange,
  in which no slot of memory is touched and no element operation runs.
\<close>
theorem move_assign_exchanges:
  "vecs (move_assign a b w) a = vecs w b
   \<and> vecs (move_assign a b w) b = vecs w a
   \<and> elems (move_assign a b w) a = elems w b
   \<and> elems (move_assign a b w) b = elems w a
   \<and> Size (move_assign a b w) a = Size w b \<and> Size (move_assign a b w) b = Size w a
   \<and> Capacity (move_assign a b w) a = Capacity w b \<and> Capacity (move_assign a b w) b = Capacity w a
   \<and> Vector_begin (move_assign a b w) a = Vector_begin w b
   \<and> Vector_begin (move_assign a b w) b = Vector_begin w a
   \<and> mem (move_assign a b w) = mem w
   \<and> blocks (move_assign a b w) = blocks w
   \<and> events (move_assign a b w) = events w
   \<and> leaked (move_assign a b w) = leaked w"
proof -
  let ?w = "move_assign a b w"
  have v: "vecs ?w a = vecs w b" "vecs ?w b = vecs w a"
    by (auto simp: move_assign_def Swap_vecs)
  have m: "mem ?w = mem w" by (simp add: move_assign_def)
  have e: "elems ?w a = elems w b" "elems ?w b = elems w a"
    by (rule elems_cong; simp add: v m)+
  show ?thesis
    using v e
    by (simp add: Size_def Capacity_def Vector_begin_def) (simp add: move_assign_def)
qed

text \<open>
  Claim C10. Assigning a vector to itself by copy returns at once: the world after the
  call is the world before it, so size, capacity and elements are the same and no
  element is copied, assigned or destroyed (the events are unchanged). This holds for
  both listings of \<^verbatim>\<open>operator=(const Vector&)\<close>.
\<close>
theorem self_copy_assign_identity:
  "copy_assign_v1 T tmp v v w = Ok w v \<and> copy_assign_v2 T tmp v v w = Ok w v"
  by (simp add: copy_assign_v1_def copy_assign_v2_def)

section \<open>Worlds left behind\<close>

lemma ends_simps [simp]:
  "ends P (Ok w r) = P w" "ends P (Throw w) = P w" "ends P Terminate" "ends P Undefined"
  by (simp_all add: ends_def)

lemma ends_bnd:
  assumes "ends P m" and "\<And>w r. P w \<Longrightarrow> ends Q (f w r)" and "\<And>w. P w \<Longrightarrow> Q w"
  shows "ends Q (bnd m f)"
  using assms by (cases m) auto

lemma ends_unwind:
  assumes "ends P m" and "\<And>w. P w \<Longrightarrow> ends Q (c w)" and "\<And>w. P w \<Longrightarrow> Q w"
  shows "ends Q (unwind m c)"
proof (cases m)
  case (Throw w)
  then have "ends Q (c w)" using assms by simp
  then show ?thesis using Throw by (cases "c w") auto
qed (use assms in auto)

lemma ends_at:
  assumes "\<And>p. po = Some p \<Longrightarrow> ends P (f p)"
  shows "ends P (at po f)"
  using assms by (cases po) auto

lemma ends_noexcept: "ends P m \<Longrightarrow> ends P (noexcept m)"
  by (cases m) (auto simp: noexcept_def)

lemma ends_mono: "ends P m \<Longrightarrow> (\<And>w. P w \<Longrightarrow> Q w) \<Longrightarrow> ends Q m"
  by (cases m) auto

lemma mem_only_refl [simp]: "mem_only w w"
  by (simp add: mem_only_def)

lemma mem_only_trans: "mem_only w w1 \<Longrightarrow> mem_only w1 w2 \<Longrightarrow> mem_only w w2"
  by (simp add: mem_only_def)

lemma mem_only_emit_store [simp]:
  "mem_only w (emit e w)" "mem_only w (store p s w)" "mem_only w (store p s (emit e w))"
  "mem_only w (store p s (store q t (emit e w)))"
  by (simp_all add: mem_only_def)

lemma mem_only_step:
  assumes "ends (mem_only w1) m" and "mem_only w w1"
  shows "ends (mem_only w) m"
  using assms by (cases m) (auto intro: mem_only_trans)

lemma frame_only_refl [simp]: "frame_only w w"
  by (simp add: frame_only_def)

lemma frame_only_trans: "frame_only w w1 \<Longrightarrow> frame_only w1 w2 \<Longrightarrow> frame_only w w2"
  by (simp add: frame_only_def)

lemma mem_only_frame: "mem_only w w' \<Longrightarrow> frame_only w w'"
  by (simp add: mem_only_def frame_only_def)

lemma ends_frame: "ends (mem_only w) m \<Longrightarrow> ends (frame_only w) m"
  by (cases m) (auto intro: mem_only_frame)

lemma frame_only_step:
  assumes "ends (frame_only w1) m" and "frame_only w w1"
  shows "ends (frame_only w) m"
  using assms by (cases m) (auto intro: frame_only_trans)

lemma construct_at_frame_only: "ends (frame_only w) (construct_at T p a w)"
  by (simp add: construct_at_def frame_only_def split: option.splits)

lemma value_construct_at_frame_only: "ends (frame_only w) (value_construct_at T p w)"
  by (simp add: value_construct_at_def frame_only_def split: option.splits)

lemma copy_construct_at_frame_only: "ends (frame_only w) (copy_construct_at T p q w)"
  by (simp add: copy_construct_at_def frame_only_def split: option.splits)

lemma move_construct_at_frame_only: "ends (frame_only w) (move_construct_at T p q w)"
  by (simp add: move_construct_at_def frame_only_def split: option.splits)

lemma copy_assign_at_mem_only: "ends (mem_only w) (copy_assign_at T p q w)"
  by (simp add: copy_assign_at_def split: option.splits)

lemma move_assign_at_mem_only: "ends (mem_only w) (move_assign_at T p q w)"
  by (simp add: move_assign_at_def split: option.splits)

lemma move_assign_local_mem_only: "ends (mem_only w) (move_assign_local T p x w)"
  by (simp add: move_assign_local_def split: option.splits)

lemma construct_local_mem_only: "ends (mem_only w) (construct_local T a w)"
  by (simp add: construct_local_def)

lemma destroy_local_mem_only [simp]: "mem_only w (destroy_local x w)"
  by (simp add: destroy_local_def)

lemma destroy_at_mem_only: "ends (mem_only w) (destroy_at p w)"
  by (simp add: destroy_at_def split: option.splits)

lemma destroy_n_mem_only: "ends (mem_only w) (destroy_n p n w)"
proof (induction n arbitrary: p w)
  case (Suc n)
  show ?case
    using destroy_at_mem_only [of w p] Suc [of "world_of (destroy_at p w)" "ptr_add p 1"]
    by (cases "destroy_at p w") (auto intro: mem_only_step)
qed simp

lemma destroy_mem_only: "ends (mem_only w) (destroy first lst w)"
  by (simp add: destroy_def destroy_n_mem_only split: option.splits)

lemma uninitialized_copy_loop_frame_only:
  "ends (frame_only w) (uninitialized_copy_loop T first result k n w)"
proof (induction n arbitrary: k w)
  case (Suc n)
  let ?m = "copy_construct_at T (ptr_add result k) (ptr_add first k) w"
  show ?case
  proof (cases ?m)
    case (Ok w1 r)
    then show ?thesis
      using copy_construct_at_frame_only [of w T "ptr_add result k" "ptr_add first k"] Suc [of w1 "Suc k"]
      by (auto intro: frame_only_step)
  next
    case (Throw w1)
    then have "frame_only w w1"
      using copy_construct_at_frame_only [of w T "ptr_add result k" "ptr_add first k"] by simp
    moreover have "ends (frame_only w1) (bnd (destroy_n result k w1) (\<lambda>w'' _. Throw w''))"
      by (rule ends_bnd [OF destroy_n_mem_only [THEN ends_frame]]) auto
    ultimately show ?thesis using Throw by (auto intro: frame_only_step)
  qed auto
qed simp

lemma uninitialized_move_loop_frame_only:
  "ends (frame_only w) (uninitialized_move_loop T first result k n w)"
proof (induction n arbitrary: k w)
  case (Suc n)
  let ?m = "move_construct_at T (ptr_add result k) (ptr_add first k) w"
  show ?case
  proof (cases ?m)
    case (Ok w1 r)
    then show ?thesis
      using move_construct_at_frame_only [of w T "ptr_add result k" "ptr_add first k"] Suc [of w1 "Suc k"]
      by (auto intro: frame_only_step)
  next
    case (Throw w1)
    then have "frame_only w w1"
      using move_construct_at_frame_only [of w T "ptr_add result k" "ptr_add first k"] by simp
    moreover have "ends (frame_only w1) (bnd (destroy_n result k w1) (\<lambda>w'' _. Throw w''))"
      by (rule ends_bnd [OF destroy_n_mem_only [THEN ends_frame]]) auto
    ultimately show ?thesis using Throw by (auto intro: frame_only_step)
  qed auto
qed simp

lemma uninitialized_value_construct_loop_frame_only:
  "ends (frame_only w) (uninitialized_value_construct_loop T first k n w)"
proof (induction n arbitrary: k w)
  case (Suc n)
  let ?m = "value_construct_at T (ptr_add first k) w"
  show ?case
  proof (cases ?m)
    case (Ok w1 r)
    then show ?thesis
      using value_construct_at_frame_only [of w T "ptr_add first k"] Suc [of w1 "Suc k"]
      by (auto intro: frame_only_step)
  next
    case (Throw w1)
    then have "frame_only w w1"
      using value_construct_at_frame_only [of w T "ptr_add first k"] by simp
    moreover have "ends (frame_only w1) (bnd (destroy_n first k w1) (\<lambda>w'' _. Throw w''))"
      by (rule ends_bnd [OF destroy_n_mem_only [THEN ends_frame]]) auto
    ultimately show ?thesis using Throw by (auto intro: frame_only_step)
  qed auto
qed simp

lemma copy_loop_mem_only: "ends (mem_only w) (copy_loop T first result n w)"
proof (induction n arbitrary: first result w)
  case (Suc n)
  show ?case
    using copy_assign_at_mem_only [of w T result first]
      Suc [of "world_of (copy_assign_at T result first w)" "ptr_add first 1" "ptr_add result 1"]
    by (cases "copy_assign_at T result first w") (auto intro: mem_only_step)
qed simp

lemma move_backward_loop_mem_only: "ends (mem_only w) (move_backward_loop T lst d_lst n w)"
proof (induction n arbitrary: lst d_lst w)
  case (Suc n)
  show ?case
  proof (cases "ptr_dec lst")
    case (Some l)
    show ?thesis
    proof (cases "ptr_dec d_lst")
      case d: (Some d)
      show ?thesis
        using Some d move_assign_at_mem_only [of w T d l]
          Suc [of "world_of (move_assign_at T d l w)" l d]
        by (cases "move_assign_at T d l w") (auto intro: mem_only_step)
    qed (simp add: Some)
  qed simp
qed simp

lemma erase_loop_mem_only: "ends (mem_only w) (erase_loop T d n i w)"
proof (induction T d n i w rule: erase_loop.induct)
  case (1 T d n i w)
  let ?m = "move_assign_at T (ptr_add (m_buffer d) i) (ptr_add (m_buffer d) (i + 1)) w"
  show ?case
  proof (cases "i = n - 1 \<or> \<not> i + 1 < m_capacity d")
    case True
    then show ?thesis by (auto simp: erase_loop.simps [of T d n i w])
  next
    case False
    then show ?thesis
      using move_assign_at_mem_only [of w T "ptr_add (m_buffer d) i" "ptr_add (m_buffer d) (i + 1)"]
        "1.IH" [of "world_of ?m" "result_of ?m"]
      by (cases ?m) (auto simp: erase_loop.simps [of T d n i w] intro: mem_only_step)
  qed
qed

lemma uninitialized_copy_n_frame_only: "ends (frame_only w) (uninitialized_copy_n T first n result w)"
  by (simp add: uninitialized_copy_n_def uninitialized_copy_loop_frame_only)

lemma uninitialized_move_n_frame_only: "ends (frame_only w) (uninitialized_move_n T first n result w)"
  by (simp add: uninitialized_move_n_def uninitialized_move_loop_frame_only)

lemma uninitialized_value_construct_n_frame_only:
  "ends (frame_only w) (uninitialized_value_construct_n T first n w)"
  by (simp add: uninitialized_value_construct_n_def uninitialized_value_construct_loop_frame_only)

lemma uninitialized_value_construct_frame_only:
  "ends (frame_only w) (uninitialized_value_construct T first lst w)"
  by (simp add: uninitialized_value_construct_def uninitialized_value_construct_n_frame_only
      split: option.splits)

lemma std_copy_mem_only: "ends (mem_only w) (std_copy T first lst result w)"
  by (simp add: std_copy_def copy_loop_mem_only split: option.splits)

lemma move_backward_mem_only: "ends (mem_only w) (move_backward T first lst d_lst w)"
  by (simp add: move_backward_def move_backward_loop_mem_only split: option.splits)

lemma MoveOrCopyN_frame_only: "ends (frame_only w) (MoveOrCopyN T first n result w)"
  by (simp add: MoveOrCopyN_def uninitialized_move_n_frame_only uninitialized_copy_n_frame_only)

lemmas mem_only_rules =
  copy_assign_at_mem_only move_assign_at_mem_only
  move_assign_local_mem_only construct_local_mem_only destroy_at_mem_only
  destroy_n_mem_only destroy_mem_only std_copy_mem_only move_backward_mem_only
  erase_loop_mem_only

lemmas frame_only_rules =
  mem_only_rules [THEN ends_frame]
  construct_at_frame_only value_construct_at_frame_only copy_construct_at_frame_only
  move_construct_at_frame_only uninitialized_copy_n_frame_only
  uninitialized_move_n_frame_only uninitialized_value_construct_n_frame_only
  uninitialized_value_construct_frame_only MoveOrCopyN_frame_only

section \<open>The capacity never shrinks under the operations of one vector\<close>

lemma ends_bnd_same:
  assumes "ends P m" and "\<And>w r. P w \<Longrightarrow> ends P (f w r)"
  shows "ends P (bnd m f)"
  using assms by (rule ends_bnd)

lemma ends_unwind_same:
  assumes "ends P m" and "\<And>w. P w \<Longrightarrow> ends P (c w)"
  shows "ends P (unwind m c)"
  using assms by (rule ends_unwind)

lemma ends_cap:
  "ends (frame_only w) m \<Longrightarrow> c \<le> Capacity w this \<Longrightarrow> ends (\<lambda>w'. c \<le> Capacity w' this) m"
  by (erule ends_mono) (simp add: frame_only_def Capacity_def)

lemmas cap_rules = frame_only_rules [THEN ends_cap]

lemma Capacity_set_size [simp]: "Capacity (set_size this n w) v = Capacity w v"
  by (simp add: Capacity_def RawMemory_Capacity_def)

lemma Capacity_set_data [simp]:
  "Capacity (set_data this m w) v = (if v = this then m_capacity m else Capacity w v)"
  by (simp add: Capacity_def RawMemory_Capacity_def)

lemma Capacity_destroy_local [simp]: "Capacity (destroy_local x w) v = Capacity w v"
  by (simp add: Capacity_def destroy_local_def)

lemma Deallocate_vecs: "ends (\<lambda>w'. vecs w' = vecs w) (Deallocate p w)"
  by (simp add: Deallocate_def split: ptr.splits option.splits)

lemma RawMemory_dtor_cap:
  "c \<le> Capacity w this \<Longrightarrow> ends (\<lambda>w'. c \<le> Capacity w' this) (RawMemory_dtor m w)"
  unfolding RawMemory_dtor_def
  by (rule ends_mono [OF Deallocate_vecs]) (simp add: Capacity_def)

lemma RawMemory_ctor_vecs:
  "RawMemory_ctor n w = (m, w0) \<Longrightarrow> vecs w0 = vecs w \<and> m_capacity m = n"
  by (auto simp: RawMemory_ctor_def Allocate_def split: if_splits)

lemma RawMemory_ctor_cap:
  "RawMemory_ctor n w = (m, w0) \<Longrightarrow> Capacity w0 this = Capacity w this"
  by (auto simp: Capacity_def dest: RawMemory_ctor_vecs)

lemma Reserve_cap:
  assumes "c \<le> Capacity w this"
  shows "ends (\<lambda>w'. c \<le> Capacity w' this) (Reserve T this n w)"
proof (cases "n \<le> Capacity w this")
  case True
  then show ?thesis using assms by (simp add: Reserve_def Capacity_def [symmetric])
next
  case False
  obtain m w0 where a: "RawMemory_ctor n w = (m, w0)" by (cases "RawMemory_ctor n w")
  have c0: "c \<le> Capacity w0 this" using assms RawMemory_ctor_cap [OF a] by simp
  have cn: "c \<le> n" using assms False by simp
  show ?thesis
    using False c0 cn RawMemory_ctor_vecs [OF a]
    by (simp add: Reserve_def Capacity_def [symmetric] Let_def a)
      (intro ends_bnd_same ends_unwind_same cap_rules RawMemory_dtor_cap; simp)
qed


lemma ends_if:
  "(b \<Longrightarrow> ends P x) \<Longrightarrow> (\<not> b \<Longrightarrow> ends P y) \<Longrightarrow> ends P (if b then x else y)"
  by simp

lemma ends_case_option:
  "(po = None \<Longrightarrow> ends P x) \<Longrightarrow> (\<And>v. po = Some v \<Longrightarrow> ends P (f v))
   \<Longrightarrow> ends P (case po of None \<Rightarrow> x | Some v \<Rightarrow> f v)"
  by (cases po) auto

lemma ends_forget: "ends P m \<Longrightarrow> ends P (forget m)"
  unfolding forget_def by (erule ends_bnd_same) simp

lemmas ends_intros =
  ends_bnd_same ends_unwind_same ends_at ends_if ends_case_option ends_noexcept ends_forget

lemmas frame_only_rules' = frame_only_rules [THEN frame_only_step]

lemma mem_only_destroy_local [simp]: "mem_only w0 (destroy_local x w) = mem_only w0 w"
  by (simp add: mem_only_def destroy_local_def)

lemma frame_only_destroy_local [simp]: "frame_only w0 (destroy_local x w) = frame_only w0 w"
  by (simp add: frame_only_def destroy_local_def)

lemma insert_in_place_frame_only:
  "ends (frame_only w) (insert_in_place T d n index before_end a w)"
  unfolding insert_in_place_def
  by (intro ends_intros frame_only_rules'; simp)

lemma insert_reallocating_cap:
  assumes "c \<le> Capacity w this" and "c \<le> new_capacity"
  shows "ends (\<lambda>w'. c \<le> Capacity w' this) (insert_reallocating T this new_capacity index a w)"
proof -
  obtain m w0 where a: "RawMemory_ctor new_capacity w = (m, w0)"
    by (cases "RawMemory_ctor new_capacity w")
  have c0: "c \<le> Capacity w0 this" using assms RawMemory_ctor_cap [OF a] by simp
  show ?thesis
    using assms c0 RawMemory_ctor_vecs [OF a]
    by (simp add: insert_reallocating_def Let_def a)
      (intro ends_intros cap_rules RawMemory_dtor_cap; simp)
qed

lemma EmplaceBack_v1_cap:
  assumes "c \<le> Capacity w this"
  shows "ends (\<lambda>w'. c \<le> Capacity w' this) (EmplaceBack_v1 T this a w)"
proof (cases "m_size (vecs w this) < Capacity w this")
  case True
  then show ?thesis
    using assms
    by (simp add: EmplaceBack_v1_def Let_def Capacity_def [symmetric])
      (intro ends_intros cap_rules; simp)
next
  case False
  let ?n = "if m_size (vecs w this) = 0 then 1 else m_size (vecs w this) * 2"
  obtain m w0 where a: "RawMemory_ctor ?n w = (m, w0)"
    by (cases "RawMemory_ctor ?n w")
  have c0: "c \<le> Capacity w0 this" using assms RawMemory_ctor_cap [OF a] by simp
  have cn: "c \<le> ?n" using assms False by (simp split: if_splits)
  show ?thesis
    using False c0 cn RawMemory_ctor_vecs [OF a] a
    by (simp add: EmplaceBack_v1_def Let_def Capacity_def [symmetric] del: One_nat_def)
      (intro ends_intros cap_rules RawMemory_dtor_cap; simp)
qed

lemma PushBack_v1_cap:
  assumes "c \<le> Capacity w this"
  shows "ends (\<lambda>w'. c \<le> Capacity w' this) (PushBack_copy_v1 T this x w)"
    and "ends (\<lambda>w'. c \<le> Capacity w' this) (PushBack_move_v1 T this x w)"
  unfolding PushBack_copy_v1_def PushBack_move_v1_def
  by (intro ends_intros EmplaceBack_v1_cap assms; simp)+

lemma Emplace_v1_cap:
  assumes "c \<le> Capacity w this"
  shows "ends (\<lambda>w'. c \<le> Capacity w' this) (Emplace_v1 T this pos a w)"
  unfolding Emplace_v1_def Let_def Capacity_def [symmetric]
  by (intro ends_intros EmplaceBack_v1_cap insert_reallocating_cap
      insert_in_place_frame_only [THEN ends_cap] assms; (simp add: assms)?)
    (use assms in simp)

lemma Insert_v1_cap:
  assumes "c \<le> Capacity w this"
  shows "ends (\<lambda>w'. c \<le> Capacity w' this) (Insert_copy_v1 T this pos x w)"
    and "ends (\<lambda>w'. c \<le> Capacity w' this) (Insert_move_v1 T this pos x w)"
  unfolding Insert_copy_v1_def Insert_move_v1_def
  by (intro Emplace_v1_cap assms)+

lemma InsertWithReallocation_cap:
  assumes "c \<le> Capacity w this" and "\<not> m_size (vecs w this) < Capacity w this"
  shows "ends (\<lambda>w'. c \<le> Capacity w' this) (InsertWithReallocation T this index a w)"
  unfolding InsertWithReallocation_def Let_def
  by (rule insert_reallocating_cap) (use assms in \<open>simp_all split: if_splits\<close>)

lemma InsertWithoutReallocation_cap:
  assumes "c \<le> Capacity w this"
  shows "ends (\<lambda>w'. c \<le> Capacity w' this) (InsertWithoutReallocation T this index a w)"
  unfolding InsertWithoutReallocation_def Let_def
  by (intro ends_intros cap_rules insert_in_place_frame_only [THEN ends_cap] assms)

lemma Emplace_v2_cap:
  assumes "c \<le> Capacity w this"
  shows "ends (\<lambda>w'. c \<le> Capacity w' this) (Emplace_v2 T this pos a w)"
  unfolding Emplace_v2_def Let_def Capacity_def [symmetric]
  by (intro ends_intros InsertWithReallocation_cap InsertWithoutReallocation_cap assms; simp)

lemma EmplaceBack_v2_cap:
  assumes "c \<le> Capacity w this"
  shows "ends (\<lambda>w'. c \<le> Capacity w' this) (EmplaceBack_v2 T this a w)"
  unfolding EmplaceBack_v2_def
  by (intro ends_intros Emplace_v2_cap assms) (simp_all split: option.splits)

lemma PushBack_v2_cap:
  assumes "c \<le> Capacity w this"
  shows "ends (\<lambda>w'. c \<le> Capacity w' this) (PushBack_copy_v2 T this x w)"
    and "ends (\<lambda>w'. c \<le> Capacity w' this) (PushBack_move_v2 T this x w)"
  unfolding PushBack_copy_v2_def PushBack_move_v2_def
  by (intro ends_intros EmplaceBack_v2_cap assms; simp)+

lemma Insert_v2_cap:
  assumes "c \<le> Capacity w this"
  shows "ends (\<lambda>w'. c \<le> Capacity w' this) (Insert_copy_v2 T this pos x w)"
    and "ends (\<lambda>w'. c \<le> Capacity w' this) (Insert_move_v2 T this pos x w)"
  unfolding Insert_copy_v2_def Insert_move_v2_def
  by (intro Emplace_v2_cap assms)+

lemma Resize_cap:
  assumes "c \<le> Capacity w this"
  shows "ends (\<lambda>w'. c \<le> Capacity w' this) (Resize T this n w)"
  unfolding Resize_def Let_def
  by (intro ends_intros cap_rules Reserve_cap assms; simp add: assms)

lemma PopBack_cap:
  assumes "c \<le> Capacity w this"
  shows "ends (\<lambda>w'. c \<le> Capacity w' this) (PopBack this w)"
  unfolding PopBack_def Let_def
  by (intro ends_intros cap_rules assms; simp)

lemma Erase_cap:
  assumes "c \<le> Capacity w this"
  shows "ends (\<lambda>w'. c \<le> Capacity w' this) (Erase T this pos w)"
  unfolding Erase_def Let_def
  by (intro ends_intros cap_rules PopBack_cap assms; simp)


lemma ends_vecs_eq:
  "ends (frame_only w) m \<Longrightarrow> vecs w = V \<Longrightarrow> ends (\<lambda>w'. vecs w' = V) m"
  by (erule ends_mono) (simp add: frame_only_def)

lemmas vecs_rules = frame_only_rules [THEN ends_vecs_eq]

lemma RawMemory_dtor_vecs:
  "vecs w = V \<Longrightarrow> ends (\<lambda>w'. vecs w' = V) (RawMemory_dtor m w)"
  unfolding RawMemory_dtor_def by (rule ends_mono [OF Deallocate_vecs]) simp

lemma Vector_dtor_vecs:
  "vecs w = V \<Longrightarrow> ends (\<lambda>w'. vecs w' = V) (Vector_dtor this w)"
  unfolding Vector_dtor_def Let_def
  by (intro ends_intros vecs_rules RawMemory_dtor_vecs; simp)

lemma Vector_ctor_copy_vecs:
  "ends (\<lambda>w'. \<exists>m. m_capacity m = m_size (vecs w other) \<and>
          vecs w' = (vecs w)(this := \<lparr>m_data = m, m_size = m_size (vecs w other)\<rparr>))
     (Vector_ctor_copy T this other w)"
proof -
  let ?n = "m_size (vecs w other)"
  obtain m w0 where a: "RawMemory_ctor ?n w = (m, w0)" by (cases "RawMemory_ctor ?n w")
  let ?V = "(vecs w)(this := \<lparr>m_data = m, m_size = ?n\<rparr>)"
  let ?w2 = "w0\<lparr>vecs := ?V\<rparr>"
  have "ends (\<lambda>w'. vecs w' = ?V)
          (unwind (uninitialized_copy_n T first ?n (GetAddress m) ?w2) (RawMemory_dtor m))"
    for first
    by (intro ends_intros vecs_rules RawMemory_dtor_vecs; simp)
  then have "ends (\<lambda>w'. \<exists>m. m_capacity m = ?n \<and> vecs w' = (vecs w)(this := \<lparr>m_data = m, m_size = ?n\<rparr>))
          (unwind (uninitialized_copy_n T first ?n (GetAddress m) ?w2) (RawMemory_dtor m))"
    for first
    by (rule ends_mono) (use RawMemory_ctor_vecs [OF a] in auto)
  then show ?thesis
    using RawMemory_ctor_vecs [OF a]
    by (simp add: Vector_ctor_copy_def Let_def a del: fun_upd_apply)
qed

lemma copy_assign_big_cap:
  assumes "c \<le> Capacity w this" and "Capacity w this < m_size (vecs w rhs)"
  shows "ends (\<lambda>w'. c \<le> Capacity w' this)
           (bnd (Vector_ctor_copy T tmp rhs w) (\<lambda>w1 _.
            bnd (Vector_dtor tmp (Swap this tmp w1)) (\<lambda>w2 _. Ok w2 this)))"
proof (rule ends_bnd [OF Vector_ctor_copy_vecs])
  fix w1 :: "'a world" and r :: unit
  assume "\<exists>m. m_capacity m = m_size (vecs w rhs) \<and>
            vecs w1 = (vecs w)(tmp := \<lparr>m_data = m, m_size = m_size (vecs w rhs)\<rparr>)"
  then obtain m where m: "m_capacity m = m_size (vecs w rhs)"
    "vecs w1 = (vecs w)(tmp := \<lparr>m_data = m, m_size = m_size (vecs w rhs)\<rparr>)" by blast
  have "c \<le> Capacity (Swap this tmp w1) this"
    using assms m by (simp add: Capacity_def RawMemory_Capacity_def Swap_vecs)
  then have "ends (\<lambda>w'. c \<le> Capacity w' this) (Vector_dtor tmp (Swap this tmp w1))"
    by (intro ends_mono [OF Vector_dtor_vecs [OF refl]]) (simp add: Capacity_def)
  then show "ends (\<lambda>w'. c \<le> Capacity w' this)
               (bnd (Vector_dtor tmp (Swap this tmp w1)) (\<lambda>w2 _. Ok w2 this))"
    by (rule ends_bnd_same) simp
next
  fix w1 :: "'a world"
  assume "\<exists>m. m_capacity m = m_size (vecs w rhs) \<and>
            vecs w1 = (vecs w)(tmp := \<lparr>m_data = m, m_size = m_size (vecs w rhs)\<rparr>)"
  then show "c \<le> Capacity w1 this"
    using assms by (auto simp: Capacity_def RawMemory_Capacity_def)
qed

lemma copy_assign_v1_cap:
  assumes "c \<le> Capacity w this"
  shows "ends (\<lambda>w'. c \<le> Capacity w' this) (copy_assign_v1 T tmp this rhs w)"
proof (cases "this = rhs")
  case True
  then show ?thesis using assms by (simp add: copy_assign_v1_def)
next
  case ne: False
  show ?thesis
  proof (cases "Capacity w this < m_size (vecs w rhs)")
    case True
    then show ?thesis
      using ne copy_assign_big_cap [OF assms, of rhs T tmp]
      by (simp add: copy_assign_v1_def Let_def Capacity_def [symmetric])
  next
    case False
    then show ?thesis
      using ne unfolding copy_assign_v1_def Let_def Capacity_def [symmetric]
      by (simp del: One_nat_def) (intro conjI impI ends_intros cap_rules assms; (simp add: assms)?)
  qed
qed

lemma copy_assign_v2_cap:
  assumes "c \<le> Capacity w this"
  shows "ends (\<lambda>w'. c \<le> Capacity w' this) (copy_assign_v2 T tmp this rhs w)"
proof (cases "this = rhs")
  case True
  then show ?thesis using assms by (simp add: copy_assign_v2_def)
next
  case ne: False
  show ?thesis
  proof (cases "Capacity w this < m_size (vecs w rhs)")
    case True
    then show ?thesis
      using ne copy_assign_big_cap [OF assms, of rhs T tmp]
      by (simp add: copy_assign_v2_def Let_def Capacity_def [symmetric])
  next
    case False
    then show ?thesis
      using ne unfolding copy_assign_v2_def Let_def Capacity_def [symmetric]
      by (simp del: One_nat_def) (intro conjI impI ends_intros cap_rules assms; (simp add: assms)?)
  qed
qed

lemma apply_op_v1_cap:
  assumes "c \<le> Capacity w this"
  shows "ends (\<lambda>w'. c \<le> Capacity w' this) (apply_op_v1 T this x w)"
  by (cases x; simp;
      intro ends_forget Reserve_cap Resize_cap PushBack_v1_cap EmplaceBack_v1_cap PopBack_cap
        Emplace_v1_cap Insert_v1_cap Erase_cap copy_assign_v1_cap assms)

lemma apply_op_v2_cap:
  assumes "c \<le> Capacity w this"
  shows "ends (\<lambda>w'. c \<le> Capacity w' this) (apply_op_v2 T this x w)"
  by (cases x; simp;
      intro ends_forget Reserve_cap Resize_cap PushBack_v2_cap EmplaceBack_v2_cap PopBack_cap
        Emplace_v2_cap Insert_v2_cap Erase_cap copy_assign_v2_cap assms)

lemma run_capacity_sorted:
  assumes "\<And>c w x. c \<le> Capacity w this \<Longrightarrow> ends (\<lambda>w'. c \<le> Capacity w' this) (step x w)"
  shows "sorted (map (\<lambda>u. Capacity u this) (w # run step xs w))"
proof (induction xs arbitrary: w)
  case (Cons x xs)
  have e: "ends (\<lambda>w'. Capacity w this \<le> Capacity w' this) (step x w)"
    by (rule assms) simp
  show ?case
  proof (cases "step x w")
    case (Ok w' r)
    then show ?thesis using e Cons [of w'] by auto
  next
    case (Throw w')
    then show ?thesis using e Cons [of w'] by auto
  qed simp_all
qed simp

text \<open>
  Claim C9, amended. Under every sequence of \<^verbatim>\<open>Reserve\<close>, \<^verbatim>\<open>Resize\<close>, \<^verbatim>\<open>PushBack\<close>,
  \<^verbatim>\<open>EmplaceBack\<close>, \<^verbatim>\<open>PopBack\<close>, \<^verbatim>\<open>Emplace\<close>, \<^verbatim>\<open>Insert\<close>, \<^verbatim>\<open>Erase\<close> and copy
  assignment applied to a vector, from any world and for any element type, the
  capacities observed before the first and after each operation never decrease, also
  after an operation that ended with an exception. This holds for both listings.
  (\<open>run\<close> goes on after every operation that returns or throws, also when a throwing
  operation has left a constructed element beyond the size, over which the next
  insertion constructs; it stops only where the program does, at \<^verbatim>\<open>std::terminate\<close>
  or at a call whose precondition is broken.)
\<close>
theorem capacity_never_decreases_without_exchange:
  "sorted (map (\<lambda>u. Capacity u this) (w # run (apply_op_v1 T this) ops w))
   \<and> sorted (map (\<lambda>u. Capacity u this) (w # run (apply_op_v2 T this) ops w))"
  using run_capacity_sorted [of this "apply_op_v1 T this", OF apply_op_v1_cap]
    run_capacity_sorted [of this "apply_op_v2 T this", OF apply_op_v2_cap]
  by blast

theorem capacity_never_decreases_without_exchange_witness:
  "sorted (map (\<lambda>u. Capacity u 0)
     (w_two # run (apply_op_v1 T_nat 0) [OpPushBackCopy 5, OpPopBack, OpErase 0] w_two))
   \<and> sorted (map (\<lambda>u. Capacity u 0)
     (w_two # run (apply_op_v2 T_nat 0) [OpPushBackCopy 5, OpPopBack, OpErase 0] w_two))
   \<and> length (run (apply_op_v1 T_nat 0) [OpPushBackCopy 5, OpPopBack, OpErase 0] w_two) = 3
   \<and> length (run (apply_op_v2 T_nat 0) [OpPushBackCopy 5, OpPopBack, OpErase 0] w_two) = 3
   \<and> sorted (map (\<lambda>u. Capacity u 0)
     (w_two # run (apply_op_v1 T_throwing_assign 0)
        [OpReserve 4, OpInsertCopy 1 7, OpPushBackCopy 8, OpPushBackCopy 9] w_two))
   \<and> sorted (map (\<lambda>u. Capacity u 0)
     (w_two # run (apply_op_v2 T_throwing_assign 0)
        [OpReserve 4, OpInsertCopy 1 7, OpPushBackCopy 8, OpPushBackCopy 9] w_two))
   \<and> is_Throw (apply_op_v1 T_throwing_assign 0 (OpInsertCopy 1 7)
        (world_of (apply_op_v1 T_throwing_assign 0 (OpReserve 4) w_two)))
   \<and> is_Throw (apply_op_v2 T_throwing_assign 0 (OpInsertCopy 1 7)
        (world_of (apply_op_v2 T_throwing_assign 0 (OpReserve 4) w_two)))
   \<and> map (\<lambda>u. (Capacity u 0, elems u 0))
       (run (apply_op_v1 T_throwing_assign 0)
          [OpReserve 4, OpInsertCopy 1 7, OpPushBackCopy 8, OpPushBackCopy 9] w_two) =
     [(4, [Some 1, Some 2]), (4, [Some 1, Some 2]), (4, [Some 1, Some 2, Some 8]),
      (4, [Some 1, Some 2, Some 8, Some 9])]
   \<and> map (\<lambda>u. (Capacity u 0, elems u 0))
       (run (apply_op_v2 T_throwing_assign 0)
          [OpReserve 4, OpInsertCopy 1 7, OpPushBackCopy 8, OpPushBackCopy 9] w_two) =
     [(4, [Some 1, Some 2]), (4, [Some 1, Some 2]), (4, [Some 1, Some 2, Some 8]),
      (4, [Some 1, Some 2, Some 8, Some 9])]"
proof -
  have "length (run (apply_op_v1 T_nat 0) [OpPushBackCopy 5, OpPopBack, OpErase 0] w_two) = 3"
    "length (run (apply_op_v2 T_nat 0) [OpPushBackCopy 5, OpPopBack, OpErase 0] w_two) = 3"
    "is_Throw (apply_op_v1 T_throwing_assign 0 (OpInsertCopy 1 7)
        (world_of (apply_op_v1 T_throwing_assign 0 (OpReserve 4) w_two)))"
    "is_Throw (apply_op_v2 T_throwing_assign 0 (OpInsertCopy 1 7)
        (world_of (apply_op_v2 T_throwing_assign 0 (OpReserve 4) w_two)))"
    "map (\<lambda>u. (Capacity u 0, elems u 0))
       (run (apply_op_v1 T_throwing_assign 0)
          [OpReserve 4, OpInsertCopy 1 7, OpPushBackCopy 8, OpPushBackCopy 9] w_two) =
     [(4, [Some 1, Some 2]), (4, [Some 1, Some 2]), (4, [Some 1, Some 2, Some 8]),
      (4, [Some 1, Some 2, Some 8, Some 9])]"
    "map (\<lambda>u. (Capacity u 0, elems u 0))
       (run (apply_op_v2 T_throwing_assign 0)
          [OpReserve 4, OpInsertCopy 1 7, OpPushBackCopy 8, OpPushBackCopy 9] w_two) =
     [(4, [Some 1, Some 2]), (4, [Some 1, Some 2]), (4, [Some 1, Some 2, Some 8]),
      (4, [Some 1, Some 2, Some 8, Some 9])]"
    by code_simp+
  then show ?thesis
    using capacity_never_decreases_without_exchange
      [of 0 w_two T_nat "[OpPushBackCopy 5, OpPopBack, OpErase 0]"]
      capacity_never_decreases_without_exchange
      [of 0 w_two T_throwing_assign
         "[OpReserve 4, OpInsertCopy 1 7, OpPushBackCopy 8, OpPushBackCopy 9]"]
    by blast
qed

text \<open>
  Claim C9 as stated fails: move assignment (and \<^verbatim>\<open>Swap\<close>) gives the vector the
  capacity of the other one. Here the vector \<open>[1, 2]\<close> of capacity 2 is
  move-assigned from an empty vector of capacity 0.
\<close>

theorem capacity_decreases_by_move_assign:
  "valid w_two 0 \<and> valid w_two 2 \<and> Capacity w_two 0 = 2
   \<and> Capacity (move_assign 0 2 w_two) 0 = 0 \<and> Capacity (Swap 0 2 w_two) 0 = 0"
  by code_simp

section \<open>What the loops do to the slots\<close>

lemma proper_simps [simp]:
  "proper P E (Ok w r) = P w r" "proper P E (Throw w) = E w"
  "\<not> proper P E Terminate" "\<not> proper P E Undefined"
  by (simp_all add: proper_def)

lemma proper_mono:
  "proper P E m \<Longrightarrow> (\<And>w r. P w r \<Longrightarrow> P' w r) \<Longrightarrow> (\<And>w. E w \<Longrightarrow> E' w) \<Longrightarrow> proper P' E' m"
  by (cases m) auto

lemma proper_ends:
  "proper P E m \<Longrightarrow> ends R m \<Longrightarrow> proper (\<lambda>w r. P w r \<and> R w) (\<lambda>w. E w \<and> R w) m"
  by (cases m) auto

lemma proper_bnd:
  assumes "proper P E m" and "\<And>w r. P w r \<Longrightarrow> proper Q E' (f w r)" and "\<And>w. E w \<Longrightarrow> E' w"
  shows "proper Q E' (bnd m f)"
  using assms by (cases m) auto

lemma proper_unwind:
  assumes "proper P E m" and "\<And>w. E w \<Longrightarrow> proper (\<lambda>w' _. E' w') E' (c w)"
  shows "proper P E' (unwind m c)"
proof (cases m)
  case (Throw w)
  then have "proper (\<lambda>w' _. E' w') E' (c w)" using assms by simp
  then show ?thesis using Throw by (cases "c w") auto
qed (use assms in auto)

lemma proper_at:
  "po = Some p \<Longrightarrow> proper P E (f p) \<Longrightarrow> proper P E (at po f)"
  by simp

lemma destroy_at_live:
  assumes "blocks w a = Some na" "i < na" "mem w a i = Some x"
  shows "destroy_at (Ptr a i) w = Ok (store (Ptr a i) None (emit (Destroy x) w)) ()"
  using assms by (simp add: destroy_at_def)

lemma destroy_n_slots:
  assumes "blocks w a = Some na" "i + n \<le> na" "\<forall>t<n. mem w a (i + t) \<noteq> None"
  shows "proper
           (\<lambda>w' _. (\<forall>c. c \<noteq> a \<longrightarrow> mem w' c = mem w c) \<and>
                    (\<forall>t<n. mem w' a (i + t) = None) \<and>
                    (\<forall>x. x < i \<or> i + n \<le> x \<longrightarrow> mem w' a x = mem w a x))
           (\<lambda>_. False) (destroy_n (Ptr a i) n w)"
  using assms
proof (induction n arbitrary: i w)
  case 0
  then show ?case by simp
next
  case (Suc n)
  from Suc.prems obtain x where x: "mem w a i = Some x" by (cases "mem w a i") force+
  let ?w1 = "store (Ptr a i) None (emit (Destroy x) w)"
  have d: "destroy_at (Ptr a i) w = Ok ?w1 ()"
    using Suc.prems x by (intro destroy_at_live) auto
  have "proper
           (\<lambda>w' _. (\<forall>c. c \<noteq> a \<longrightarrow> mem w' c = mem ?w1 c) \<and>
                    (\<forall>t<n. mem w' a (Suc i + t) = None) \<and>
                    (\<forall>x. x < Suc i \<or> Suc i + n \<le> x \<longrightarrow> mem w' a x = mem ?w1 a x))
           (\<lambda>_. False) (destroy_n (Ptr a (Suc i)) n ?w1)"
    by (rule Suc.IH) (use Suc.prems in \<open>auto simp: All_less_Suc2\<close>)
  then show ?case
    by (simp add: d) (erule proper_mono; auto simp: All_less_Suc2)
qed

lemma uninitialized_copy_loop_slots:
  assumes "blocks w a = Some na" "blocks w b = Some nb" "a \<noteq> b"
    and "i + k + n \<le> na" "j + k + n \<le> nb"
    and "\<forall>t<n. mem w a (i + k + t) \<noteq> None"
    and "\<forall>t<n. mem w b (j + k + t) = None"
    and "\<forall>t<k. mem w b (j + t) \<noteq> None"
  shows "proper
           (\<lambda>w' _. (\<forall>c. c \<noteq> b \<longrightarrow> mem w' c = mem w c) \<and>
                    (\<forall>t<n. mem w' b (j + k + t) = mem w a (i + k + t)) \<and>
                    (\<forall>x. x < j + k \<or> j + k + n \<le> x \<longrightarrow> mem w' b x = mem w b x))
           (\<lambda>w'. (\<forall>c. c \<noteq> b \<longrightarrow> mem w' c = mem w c) \<and>
                 (\<forall>t<k. mem w' b (j + t) = None) \<and>
                 (\<forall>x. x < j \<or> j + k \<le> x \<longrightarrow> mem w' b x = mem w b x))
           (uninitialized_copy_loop T (Ptr a i) (Ptr b j) k n w)"
  using assms
proof (induction n arbitrary: k w)
  case 0
  then show ?case by simp
next
  case (Suc n)
  from Suc.prems obtain x where x: "mem w a (i + k) = Some x"
    by (cases "mem w a (i + k)") force+
  have r: "mem w b (j + k) = None" using Suc.prems by force
  let ?ev = "CopyConstruct x"
  show ?case
  proof (cases "fails T w ?ev")
    case True
    have c: "copy_construct_at T (Ptr b (j + k)) (Ptr a (i + k)) w = Throw (emit ?ev w)"
      using Suc.prems x r True by (simp add: copy_construct_at_def)
    have "proper
           (\<lambda>w' _. (\<forall>c. c \<noteq> b \<longrightarrow> mem w' c = mem (emit ?ev w) c) \<and>
                    (\<forall>t<k. mem w' b (j + t) = None) \<and>
                    (\<forall>x. x < j \<or> j + k \<le> x \<longrightarrow> mem w' b x = mem (emit ?ev w) b x))
            (\<lambda>_. False) (destroy_n (Ptr b j) k (emit ?ev w))"
      by (rule destroy_n_slots) (use Suc.prems in auto)
    then show ?thesis
      by (simp add: c) (cases "destroy_n (Ptr b j) k (emit ?ev w)"; simp)
  next
    case False
    let ?w1 = "store (Ptr b (j + k)) (Some x) (emit ?ev w)"
    have c: "copy_construct_at T (Ptr b (j + k)) (Ptr a (i + k)) w = Ok ?w1 ()"
      using Suc.prems x r False by (simp add: copy_construct_at_def)
    have p1: "\<forall>t<n. mem ?w1 a (i + Suc k + t) \<noteq> None"
      using Suc.prems(3,6) by (auto simp: All_less_Suc2)
    have p2: "\<forall>t<n. mem ?w1 b (j + Suc k + t) = None"
      using Suc.prems(7) by (auto simp: All_less_Suc2)
    have p3: "\<forall>t<Suc k. mem ?w1 b (j + t) \<noteq> None"
      using Suc.prems(8) by (auto simp: less_Suc_eq)
    have "proper
           (\<lambda>w' _. (\<forall>c. c \<noteq> b \<longrightarrow> mem w' c = mem ?w1 c) \<and>
                    (\<forall>t<n. mem w' b (j + Suc k + t) = mem ?w1 a (i + Suc k + t)) \<and>
                    (\<forall>x. x < j + Suc k \<or> j + Suc k + n \<le> x \<longrightarrow> mem w' b x = mem ?w1 b x))
           (\<lambda>w'. (\<forall>c. c \<noteq> b \<longrightarrow> mem w' c = mem ?w1 c) \<and>
                 (\<forall>t<Suc k. mem w' b (j + t) = None) \<and>
                 (\<forall>x. x < j \<or> j + Suc k \<le> x \<longrightarrow> mem w' b x = mem ?w1 b x))
           (uninitialized_copy_loop T (Ptr a i) (Ptr b j) (Suc k) n ?w1)"
      by (rule Suc.IH [OF _ _ _ _ _ p1 p2 p3]) (use Suc.prems in auto)
    moreover have "uninitialized_copy_loop T (Ptr a i) (Ptr b j) k (Suc n) w =
        uninitialized_copy_loop T (Ptr a i) (Ptr b j) (Suc k) n ?w1"
      by (simp add: c)
    ultimately show ?thesis
      unfolding \<open>uninitialized_copy_loop T (Ptr a i) (Ptr b j) k (Suc n) w =
        uninitialized_copy_loop T (Ptr a i) (Ptr b j) (Suc k) n ?w1\<close>
    proof (elim proper_mono, goal_cases)
      case (1 w' r)
      then have "\<forall>t<Suc n. mem w' b (j + k + t) = mem w a (i + k + t)"
        using Suc.prems(3) x by (auto simp: All_less_Suc2)
      then show ?case using 1 Suc.prems(3) by auto
    next
      case (2 w')
      have "mem w' b x = mem w b x" if "j + k \<le> x" for x
      proof (cases "x = j + k")
        case True
        then show ?thesis using 2 r by (auto simp: less_Suc_eq)
      next
        case False
        then have "j + Suc k \<le> x" using that by simp
        then show ?thesis using 2 False by auto
      qed
      then show ?case using 2 Suc.prems(3) by (auto simp: less_Suc_eq)
    qed
  qed
qed


lemma uninitialized_move_loop_slots:
  assumes "blocks w a = Some na" "blocks w b = Some nb" "a \<noteq> b"
    and "i + k + n \<le> na" "j + k + n \<le> nb"
    and "\<forall>t<n. mem w a (i + k + t) \<noteq> None"
    and "\<forall>t<n. mem w b (j + k + t) = None"
    and "\<forall>t<k. mem w b (j + t) \<noteq> None"
  shows "proper
           (\<lambda>w' _. (\<forall>c. c \<noteq> a \<and> c \<noteq> b \<longrightarrow> mem w' c = mem w c) \<and>
                    (\<forall>t<n. mem w' b (j + k + t) = mem w a (i + k + t)) \<and>
                    (\<forall>x. x < j + k \<or> j + k + n \<le> x \<longrightarrow> mem w' b x = mem w b x) \<and>
                    (\<forall>x. (mem w' a x = None) = (mem w a x = None)) \<and>
                    (\<forall>x. x < i + k \<or> i + k + n \<le> x \<longrightarrow> mem w' a x = mem w a x))
           (\<lambda>w'. \<not> nothrow_move_constructible T \<and>
                 (\<forall>c. c \<noteq> a \<and> c \<noteq> b \<longrightarrow> mem w' c = mem w c) \<and>
                 (\<forall>t<k. mem w' b (j + t) = None) \<and>
                 (\<forall>x. x < j \<or> j + k \<le> x \<longrightarrow> mem w' b x = mem w b x) \<and>
                 (\<forall>x. (mem w' a x = None) = (mem w a x = None)))
           (uninitialized_move_loop T (Ptr a i) (Ptr b j) k n w)"
  using assms
proof (induction n arbitrary: k w)
  case 0
  then show ?case by simp
next
  case (Suc n)
  from Suc.prems obtain x where x: "mem w a (i + k) = Some x"
    by (cases "mem w a (i + k)") force+
  have r: "mem w b (j + k) = None" using Suc.prems by force
  let ?ev = "MoveConstruct x"
  show ?case
  proof (cases "fails T w ?ev")
    case True
    then have nt: "\<not> nothrow_move_constructible T" by (simp add: fails_def)
    have c: "move_construct_at T (Ptr b (j + k)) (Ptr a (i + k)) w = Throw (emit ?ev w)"
      using Suc.prems x r True by (simp add: move_construct_at_def)
    have "proper
           (\<lambda>w' _. (\<forall>c. c \<noteq> b \<longrightarrow> mem w' c = mem (emit ?ev w) c) \<and>
                    (\<forall>t<k. mem w' b (j + t) = None) \<and>
                    (\<forall>x. x < j \<or> j + k \<le> x \<longrightarrow> mem w' b x = mem (emit ?ev w) b x))
            (\<lambda>_. False) (destroy_n (Ptr b j) k (emit ?ev w))"
      by (rule destroy_n_slots) (use Suc.prems in auto)
    then show ?thesis
      using nt Suc.prems(3)
      by (simp add: c) (cases "destroy_n (Ptr b j) k (emit ?ev w)"; simp)
  next
    case False
    let ?w1 = "store (Ptr b (j + k)) (Some x) (store (Ptr a (i + k)) (Some (moved_from T x)) (emit ?ev w))"
    have c: "move_construct_at T (Ptr b (j + k)) (Ptr a (i + k)) w = Ok ?w1 ()"
      using Suc.prems x r False by (simp add: move_construct_at_def)
    have p1: "\<forall>t<n. mem ?w1 a (i + Suc k + t) \<noteq> None"
      using Suc.prems(3,6) by (auto simp: All_less_Suc2)
    have p2: "\<forall>t<n. mem ?w1 b (j + Suc k + t) = None"
      using Suc.prems(3,7) by (auto simp: All_less_Suc2)
    have p3: "\<forall>t<Suc k. mem ?w1 b (j + t) \<noteq> None"
      using Suc.prems(3,8) by (auto simp: less_Suc_eq)
    have "proper
           (\<lambda>w' _. (\<forall>c. c \<noteq> a \<and> c \<noteq> b \<longrightarrow> mem w' c = mem ?w1 c) \<and>
                    (\<forall>t<n. mem w' b (j + Suc k + t) = mem ?w1 a (i + Suc k + t)) \<and>
                    (\<forall>x. x < j + Suc k \<or> j + Suc k + n \<le> x \<longrightarrow> mem w' b x = mem ?w1 b x) \<and>
                    (\<forall>x. (mem w' a x = None) = (mem ?w1 a x = None)) \<and>
                    (\<forall>x. x < i + Suc k \<or> i + Suc k + n \<le> x \<longrightarrow> mem w' a x = mem ?w1 a x))
           (\<lambda>w'. \<not> nothrow_move_constructible T \<and>
                 (\<forall>c. c \<noteq> a \<and> c \<noteq> b \<longrightarrow> mem w' c = mem ?w1 c) \<and>
                 (\<forall>t<Suc k. mem w' b (j + t) = None) \<and>
                 (\<forall>x. x < j \<or> j + Suc k \<le> x \<longrightarrow> mem w' b x = mem ?w1 b x) \<and>
                 (\<forall>x. (mem w' a x = None) = (mem ?w1 a x = None)))
           (uninitialized_move_loop T (Ptr a i) (Ptr b j) (Suc k) n ?w1)"
      by (rule Suc.IH [OF _ _ _ _ _ p1 p2 p3]) (use Suc.prems in auto)
    moreover have e: "uninitialized_move_loop T (Ptr a i) (Ptr b j) k (Suc n) w =
        uninitialized_move_loop T (Ptr a i) (Ptr b j) (Suc k) n ?w1"
      by (simp add: c)
    ultimately show ?thesis
      unfolding e
    proof (elim proper_mono, goal_cases)
      case (1 w' r)
      then have "\<forall>t<Suc n. mem w' b (j + k + t) = mem w a (i + k + t)"
        using Suc.prems(3) x by (auto simp: All_less_Suc2)
      moreover have "\<forall>x. (mem w' a x = None) = (mem w a x = None)"
        using 1 Suc.prems(3) x by auto
      moreover have "\<forall>x. x < i + k \<or> i + k + Suc n \<le> x \<longrightarrow> mem w' a x = mem w a x"
        using 1 Suc.prems(3) by auto
      ultimately show ?case using 1 Suc.prems(3) by auto
    next
      case (2 w')
      have "mem w' b x = mem w b x" if "j + k \<le> x" for x
      proof (cases "x = j + k")
        case True
        then show ?thesis using 2 r by (auto simp: less_Suc_eq)
      next
        case False
        then have "j + Suc k \<le> x" using that by simp
        then show ?thesis using 2 False Suc.prems(3) by auto
      qed
      moreover have "\<forall>x. (mem w' a x = None) = (mem w a x = None)"
        using 2 Suc.prems(3) x by auto
      ultimately show ?case using 2 Suc.prems(3) by (auto simp: less_Suc_eq)
    qed
  qed
qed

lemma MoveOrCopyN_slots:
  assumes "blocks w a = Some na" "blocks w b = Some nb" "a \<noteq> b"
    and "i + n \<le> na" "j + n \<le> nb"
    and "\<forall>t<n. mem w a (i + t) \<noteq> None"
    and "\<forall>t<n. mem w b (j + t) = None"
  shows "proper
           (\<lambda>w' _. (\<forall>c. c \<noteq> a \<and> c \<noteq> b \<longrightarrow> mem w' c = mem w c) \<and>
                    (\<forall>t<n. mem w' b (j + t) = mem w a (i + t)) \<and>
                    (\<forall>x. x < j \<or> j + n \<le> x \<longrightarrow> mem w' b x = mem w b x) \<and>
                    (\<forall>x. (mem w' a x = None) = (mem w a x = None)) \<and>
                    (\<forall>x. x < i \<or> i + n \<le> x \<longrightarrow> mem w' a x = mem w a x) \<and>
                    (\<not> CanMove T \<longrightarrow> mem w' a = mem w a))
           (\<lambda>w'. \<not> nothrow_move_constructible T \<and>
                 (\<forall>c. c \<noteq> a \<longrightarrow> mem w' c = mem w c) \<and>
                 (\<forall>x. (mem w' a x = None) = (mem w a x = None)) \<and>
                 (copy_constructible T \<longrightarrow> mem w' a = mem w a))
           (MoveOrCopyN T (Ptr a i) n (Ptr b j) w)"
proof (cases "CanMove T")
  case True
  have "proper
           (\<lambda>w' _. (\<forall>c. c \<noteq> a \<and> c \<noteq> b \<longrightarrow> mem w' c = mem w c) \<and>
                    (\<forall>t<n. mem w' b (j + 0 + t) = mem w a (i + 0 + t)) \<and>
                    (\<forall>x. x < j + 0 \<or> j + 0 + n \<le> x \<longrightarrow> mem w' b x = mem w b x) \<and>
                    (\<forall>x. (mem w' a x = None) = (mem w a x = None)) \<and>
                    (\<forall>x. x < i + 0 \<or> i + 0 + n \<le> x \<longrightarrow> mem w' a x = mem w a x))
           (\<lambda>w'. \<not> nothrow_move_constructible T \<and>
                 (\<forall>c. c \<noteq> a \<and> c \<noteq> b \<longrightarrow> mem w' c = mem w c) \<and>
                 (\<forall>t<0. mem w' b (j + t) = None) \<and>
                 (\<forall>x. x < j \<or> j + 0 \<le> x \<longrightarrow> mem w' b x = mem w b x) \<and>
                 (\<forall>x. (mem w' a x = None) = (mem w a x = None)))
           (uninitialized_move_loop T (Ptr a i) (Ptr b j) 0 n w)"
    by (rule uninitialized_move_loop_slots) (use assms in auto)
  then show ?thesis
    using True
    unfolding MoveOrCopyN_def uninitialized_move_n_def
    by (simp add: CanMove_def) (erule proper_mono; force)
next
  case False
  have "proper
           (\<lambda>w' _. (\<forall>c. c \<noteq> b \<longrightarrow> mem w' c = mem w c) \<and>
                    (\<forall>t<n. mem w' b (j + 0 + t) = mem w a (i + 0 + t)) \<and>
                    (\<forall>x. x < j + 0 \<or> j + 0 + n \<le> x \<longrightarrow> mem w' b x = mem w b x))
           (\<lambda>w'. (\<forall>c. c \<noteq> b \<longrightarrow> mem w' c = mem w c) \<and>
                 (\<forall>t<0. mem w' b (j + t) = None) \<and>
                 (\<forall>x. x < j \<or> j + 0 \<le> x \<longrightarrow> mem w' b x = mem w b x))
           (uninitialized_copy_loop T (Ptr a i) (Ptr b j) 0 n w)"
    by (rule uninitialized_copy_loop_slots) (use assms in auto)
  moreover have nt: "\<not> nothrow_move_constructible T"
    using False by (simp add: CanMove_def)
  ultimately have "proper
           (\<lambda>w' _. (\<forall>c. c \<noteq> a \<and> c \<noteq> b \<longrightarrow> mem w' c = mem w c) \<and>
                    (\<forall>t<n. mem w' b (j + t) = mem w a (i + t)) \<and>
                    (\<forall>x. x < j \<or> j + n \<le> x \<longrightarrow> mem w' b x = mem w b x) \<and>
                    (\<forall>x. (mem w' a x = None) = (mem w a x = None)) \<and>
                    (\<forall>x. x < i \<or> i + n \<le> x \<longrightarrow> mem w' a x = mem w a x) \<and>
                    (\<not> CanMove T \<longrightarrow> mem w' a = mem w a))
           (\<lambda>w'. \<not> nothrow_move_constructible T \<and>
                 (\<forall>c. c \<noteq> a \<longrightarrow> mem w' c = mem w c) \<and>
                 (\<forall>x. (mem w' a x = None) = (mem w a x = None)) \<and>
                 (copy_constructible T \<longrightarrow> mem w' a = mem w a))
           (uninitialized_copy_loop T (Ptr a i) (Ptr b j) 0 n w)"
  proof (elim proper_mono, goal_cases)
    case (1 w' r)
    then show ?case using assms(3) by auto
  next
    case (2 w')
    have "mem w' b x = mem w b x" for x
      using 2 by (cases "x < j") auto
    then have "mem w' b = mem w b" by (rule ext)
    then have "mem w' c = mem w c" for c using 2 by (cases "c = b") auto
    then show ?case using nt by simp
  qed
  then show ?thesis
    using False unfolding MoveOrCopyN_def uninitialized_copy_n_def by simp
qed

lemma copy_construct_at_raw:
  assumes "mem w b i = None"
  shows "ends (\<lambda>w'. mem_only w w' \<and> (\<forall>x. x \<noteq> i \<and> mem w b x = None \<longrightarrow> mem w' b x = None))
           (copy_construct_at T (Ptr b i) q w)"
  using assms
  by (cases q) (auto simp: copy_construct_at_def mem_only_def split: option.splits if_splits)

lemma move_construct_at_raw:
  assumes "mem w b i = None"
  shows "ends (\<lambda>w'. mem_only w w' \<and> (\<forall>x. x \<noteq> i \<and> mem w b x = None \<longrightarrow> mem w' b x = None))
           (move_construct_at T (Ptr b i) q w)"
  using assms
  by (cases q) (auto simp: move_construct_at_def mem_only_def split: option.splits if_splits)

lemma uninitialized_copy_loop_raw_mem_only:
  assumes "\<forall>t<n. mem w b (j + k + t) = None"
  shows "ends (mem_only w) (uninitialized_copy_loop T first (Ptr b j) k n w)"
  using assms
proof (induction n arbitrary: k w)
  case (Suc n)
  let ?m = "copy_construct_at T (Ptr b (j + k)) (ptr_add first k) w"
  have r: "mem w b (j + k) = None" using Suc.prems [rule_format, of 0] by simp
  note c = copy_construct_at_raw [OF r, of T "ptr_add first k"]
  show ?case
  proof (cases ?m)
    case (Ok w1 u)
    then have mo: "mem_only w w1"
      and keep: "\<forall>x. x \<noteq> j + k \<and> mem w b x = None \<longrightarrow> mem w1 b x = None"
      using c by simp_all
    have "\<forall>t<n. mem w1 b (j + Suc k + t) = None"
    proof (intro allI impI)
      fix t assume "t < n"
      then have "mem w b (j + k + Suc t) = None" using Suc.prems by auto
      then show "mem w1 b (j + Suc k + t) = None" using keep by simp
    qed
    from Suc.IH [OF this] show ?thesis using Ok mo by (auto intro: mem_only_step)
  next
    case (Throw w1)
    then have "mem_only w w1" using c by simp
    moreover have "ends (mem_only w1) (bnd (destroy_n (Ptr b j) k w1) (\<lambda>w'' _. Throw w''))"
      by (rule ends_bnd [OF destroy_n_mem_only]) auto
    ultimately show ?thesis using Throw by (auto intro: mem_only_step)
  qed auto
qed simp

lemma uninitialized_move_loop_raw_mem_only:
  assumes "\<forall>t<n. mem w b (j + k + t) = None"
  shows "ends (mem_only w) (uninitialized_move_loop T first (Ptr b j) k n w)"
  using assms
proof (induction n arbitrary: k w)
  case (Suc n)
  let ?m = "move_construct_at T (Ptr b (j + k)) (ptr_add first k) w"
  have r: "mem w b (j + k) = None" using Suc.prems [rule_format, of 0] by simp
  note c = move_construct_at_raw [OF r, of T "ptr_add first k"]
  show ?case
  proof (cases ?m)
    case (Ok w1 u)
    then have mo: "mem_only w w1"
      and keep: "\<forall>x. x \<noteq> j + k \<and> mem w b x = None \<longrightarrow> mem w1 b x = None"
      using c by simp_all
    have "\<forall>t<n. mem w1 b (j + Suc k + t) = None"
    proof (intro allI impI)
      fix t assume "t < n"
      then have "mem w b (j + k + Suc t) = None" using Suc.prems by auto
      then show "mem w1 b (j + Suc k + t) = None" using keep by simp
    qed
    from Suc.IH [OF this] show ?thesis using Ok mo by (auto intro: mem_only_step)
  next
    case (Throw w1)
    then have "mem_only w w1" using c by simp
    moreover have "ends (mem_only w1) (bnd (destroy_n (Ptr b j) k w1) (\<lambda>w'' _. Throw w''))"
      by (rule ends_bnd [OF destroy_n_mem_only]) auto
    ultimately show ?thesis using Throw by (auto intro: mem_only_step)
  qed auto
qed simp

lemma uninitialized_copy_n_mem_only:
  assumes "\<forall>t<n. mem w b (j + t) = None"
  shows "ends (mem_only w) (uninitialized_copy_n T first n (Ptr b j) w)"
  unfolding uninitialized_copy_n_def
  by (rule uninitialized_copy_loop_raw_mem_only) (use assms in simp)

lemma MoveOrCopyN_mem_only:
  assumes "\<forall>t<n. mem w b (j + t) = None"
  shows "ends (mem_only w) (MoveOrCopyN T first n (Ptr b j) w)"
  unfolding MoveOrCopyN_def uninitialized_move_n_def uninitialized_copy_n_def
  using uninitialized_copy_loop_raw_mem_only [of n w b j 0 T first]
    uninitialized_move_loop_raw_mem_only [of n w b j 0 T first] assms
  by simp

section \<open>Valid vectors\<close>

lemma valid_Null:
  assumes "valid w this" "m_buffer (m_data (vecs w this)) = Null"
  shows "m_capacity (m_data (vecs w this)) = 0" "m_size (vecs w this) = 0"
    "elems w this = []"
  using assms by (auto simp: valid_def Let_def elems_def cells_def)

lemma valid_Ptr:
  assumes "valid w this" "m_buffer (m_data (vecs w this)) = Ptr a i"
  shows "i = 0" "0 < m_capacity (m_data (vecs w this))" "a < brk w"
    "blocks w a = Some (m_capacity (m_data (vecs w this)))"
    "m_size (vecs w this) \<le> m_capacity (m_data (vecs w this))"
    "\<forall>x<m_size (vecs w this). mem w a x \<noteq> None"
    "\<forall>x. m_size (vecs w this) \<le> x \<and> x < m_capacity (m_data (vecs w this)) \<longrightarrow> mem w a x = None"
  using assms by (auto simp: valid_def Let_def list_all_iff)

lemma valid_size_le: "valid w this \<Longrightarrow> Size w this \<le> Capacity w this"
  by (simp add: valid_def Let_def Size_def Capacity_def RawMemory_Capacity_def)

lemma length_elems: "valid w this \<Longrightarrow> length (elems w this) = Size w this"
  by (cases "m_buffer (m_data (vecs w this))")
    (auto simp: elems_def cells_def valid_def Let_def Size_def)

lemma elems_Ptr:
  assumes "m_buffer (m_data (vecs w this)) = Ptr a 0"
    and "m_size (vecs w this) \<le> m_capacity (m_data (vecs w this))"
  shows "elems w this = map (mem w a) [0..<m_size (vecs w this)]"
  using assms by (simp add: elems_def cells_def Size_def take_map)

lemma elems_nth:
  assumes "valid w this" "m_buffer (m_data (vecs w this)) = Ptr a i" "x < m_size (vecs w this)"
  shows "elems w this ! x = mem w a x"
  using assms valid_Ptr(1,5) [OF assms(1,2)] by (simp add: elems_Ptr)

lemma validI:
  assumes "m_buffer (m_data (vecs w this)) = Ptr a 0"
    and "0 < m_capacity (m_data (vecs w this))" "a < brk w"
    and "blocks w a = Some (m_capacity (m_data (vecs w this)))"
    and "m_size (vecs w this) \<le> m_capacity (m_data (vecs w this))"
    and "\<And>x. x < m_size (vecs w this) \<Longrightarrow> mem w a x \<noteq> None"
    and "\<And>x. m_size (vecs w this) \<le> x \<Longrightarrow> x < m_capacity (m_data (vecs w this)) \<Longrightarrow> mem w a x = None"
  shows "valid w this"
  using assms by (auto simp: valid_def Let_def list_all_iff)

section \<open>Insertion into new storage\<close>

lemma RawMemory_ctor_eq:
  "N \<noteq> 0 \<Longrightarrow> RawMemory_ctor N w =
     (\<lparr>m_buffer = Ptr (brk w) 0, m_capacity = N\<rparr>,
      w\<lparr>blocks := (blocks w)(brk w := Some N), mem := (mem w)(brk w := (\<lambda>_. None)),
        brk := Suc (brk w)\<rparr>)"
  by (simp add: RawMemory_ctor_def Allocate_def)

lemma Deallocate_raw:
  assumes "blocks w b = Some N" "\<forall>x<N. mem w b x = None"
  shows "proper (\<lambda>w' _. blocks w' = (blocks w)(b := None) \<and> mem w' = mem w \<and> brk w' = brk w \<and>
                   vecs w' = vecs w \<and> leaked w' = leaked w)
           (\<lambda>_. False) (Deallocate (Ptr b 0) w)"
proof -
  have "filter (\<lambda>j. mem w b j \<noteq> None) [0..<N] = []"
    using assms(2) by (auto simp: filter_empty_conv)
  then show ?thesis using assms(1) by (simp add: Deallocate_def)
qed

lemma MoveOrCopyN_0 [simp]: "MoveOrCopyN T p 0 q w = Ok w ()"
  by (simp add: MoveOrCopyN_def uninitialized_move_n_def uninitialized_copy_n_def)

lemma construct_at_raw:
  assumes "blocks w b = Some N" "i < N" "mem w b i = None"
  shows "construct_at T (Ptr b i) a w =
     (if fails T w (init_event a) then Throw (emit (init_event a) w)
      else Ok (store (Ptr b i) (Some (init_value a)) (emit (init_event a) w)) ())"
  using assms by (simp add: construct_at_def)

lemma fails_events: "events w' = events w \<Longrightarrow> fails T w' e = fails T w e"
  by (simp add: fails_def split: event.splits)

lemma restoredI:
  assumes "vecs w' = vecs w" "leaked w' = leaked w" "brk w' = Suc (brk w)"
    and "blocks w' = (blocks w)(brk w := None)"
    and "\<And>c. c \<noteq> brk w \<Longrightarrow> mem w' c = mem w c"
  shows "restored w w'"
  using assms by (auto simp: restored_def)

lemma insert_reallocating_Null:
  assumes "m_buffer (m_data (vecs w this)) = Null" "m_size (vecs w this) = 0" "0 < N"
  shows "proper
     (\<lambda>w' _. vecs w' = (vecs w)(this := (vecs w this)\<lparr>m_data := \<lparr>m_buffer = Ptr (brk w) 0, m_capacity = N\<rparr>\<rparr>)
        \<and> brk w' = Suc (brk w) \<and> blocks w' = (blocks w)(brk w := Some N) \<and> leaked w' = leaked w
        \<and> (\<forall>c. c \<noteq> brk w \<longrightarrow> mem w' c = mem w c)
        \<and> (\<forall>x. mem w' (brk w) x = (if x = 0 then Some (init_value a) else None)))
     (\<lambda>w'. restored w w' \<and> fails T w (init_event a))
     (insert_reallocating T this N 0 a w)"
proof -
  let ?b = "brk w"
  let ?w0 = "w\<lparr>blocks := (blocks w)(?b := Some N), mem := (mem w)(?b := (\<lambda>_. None)), brk := Suc ?b\<rparr>"
  have f: "fails T ?w0 (init_event a) = fails T w (init_event a)"
    by (rule fails_events) simp
  show ?thesis
  proof (cases "fails T w (init_event a)")
    case True
    have "proper (\<lambda>w' _. blocks w' = (blocks (emit (init_event a) ?w0))(?b := None) \<and>
              mem w' = mem (emit (init_event a) ?w0) \<and> brk w' = brk (emit (init_event a) ?w0) \<and>
              vecs w' = vecs (emit (init_event a) ?w0) \<and> leaked w' = leaked (emit (init_event a) ?w0))
            (\<lambda>_. False) (Deallocate (Ptr ?b 0) (emit (init_event a) ?w0))"
      by (rule Deallocate_raw [where N = N]) simp_all
    then show ?thesis
      using assms True f
      by (cases "Deallocate (Ptr ?b 0) (emit (init_event a) ?w0)")
        (auto simp: insert_reallocating_def RawMemory_ctor_eq Let_def RawMemory_plus_def
          construct_at_raw [where N = N] RawMemory_dtor_def GetAddress_def intro!: restoredI)
  next
    case False
    then show ?thesis
      using assms f
      by (simp add: insert_reallocating_def RawMemory_ctor_eq Let_def RawMemory_plus_def
          construct_at_raw [where N = N] RawMemory_dtor_def GetAddress_def Deallocate_def)
  qed
qed


lemma destroy_at_slot:
  assumes "blocks w b = Some N" "i < N" "mem w b i \<noteq> None"
  shows "proper (\<lambda>w' _. mem_only w w' \<and> mem w' = (mem w)(b := (mem w b)(i := None)))
           (\<lambda>_. False) (destroy_at (Ptr b i) w)"
  using assms by (auto simp: destroy_at_def mem_only_def)

lemma realloc_body:
  fixes w w1 :: "'a world"
  assumes fr: "blocks w1 = (blocks w)(b := Some N)" "brk w1 = Suc b" "vecs w1 = vecs w"
      "leaked w1 = leaked w"
    and ab: "a \<noteq> b" "b = brk w" and ba: "blocks w a = Some n"
    and la: "\<forall>x<n. mem w a x \<noteq> None"
    and m1: "mem w1 a = mem w a" "\<forall>c. c \<noteq> a \<and> c \<noteq> b \<longrightarrow> mem w1 c = mem w c"
      "mem w1 b index = Some v" "\<forall>x. x \<noteq> index \<longrightarrow> mem w1 b x = None"
    and ix: "index \<le> n" "n < N"
  shows "proper
     (\<lambda>w' _. vecs w' = (vecs w)(this := (vecs w this)\<lparr>m_data := \<lparr>m_buffer = Ptr b 0, m_capacity = N\<rparr>\<rparr>)
        \<and> brk w' = Suc b \<and> blocks w' = (blocks w)(b := Some N, a := None) \<and> leaked w' = leaked w
        \<and> (\<forall>c. c \<noteq> a \<and> c \<noteq> b \<longrightarrow> mem w' c = mem w c)
        \<and> (\<forall>x<index. mem w' b x = mem w a x) \<and> mem w' b index = Some v
        \<and> (\<forall>t. index \<le> t \<and> t < n \<longrightarrow> mem w' b (Suc t) = mem w a t)
        \<and> (\<forall>x>n. mem w' b x = None))
     (\<lambda>w'. copy_constructible T \<longrightarrow> restored w w')
     (bnd (unwind
            (bnd (unwind (MoveOrCopyN T (Ptr a 0) index (Ptr b 0) w1) (destroy_at (Ptr b index)))
               (\<lambda>w2 _.
                  bnd (unwind (MoveOrCopyN T (Ptr a index) (n - index) (Ptr b (Suc index)) w2)
                         (destroy_n (Ptr b 0) (Suc index)))
                    (\<lambda>w3 _. destroy_n (Ptr a 0) n w3)))
            (RawMemory_dtor \<lparr>m_buffer = Ptr b 0, m_capacity = N\<rparr>))
        (\<lambda>w4 _. Deallocate (Ptr a 0) (set_data this \<lparr>m_buffer = Ptr b 0, m_capacity = N\<rparr> w4)))"
proof -
  let ?J = "\<lambda>w'. mem_only w1 w' \<and> (\<forall>c. c \<noteq> a \<and> c \<noteq> b \<longrightarrow> mem w' c = mem w c)"
  let ?E = "\<lambda>w'. ?J w' \<and> (\<forall>x. mem w' b x = None) \<and> (copy_constructible T \<longrightarrow> mem w' a = mem w a)"
  let ?A2 = "\<lambda>w2. ?J w2 \<and> (\<forall>x. (mem w2 a x = None) = (mem w a x = None)) \<and>
      (\<forall>x. index \<le> x \<longrightarrow> mem w2 a x = mem w a x) \<and> (\<not> CanMove T \<longrightarrow> mem w2 a = mem w a) \<and>
      (\<forall>x<index. mem w2 b x = mem w a x) \<and> mem w2 b index = Some v \<and> (\<forall>x>index. mem w2 b x = None)"
  let ?B = "\<lambda>w3. (\<forall>x<index. mem w3 b x = mem w a x) \<and> mem w3 b index = Some v \<and>
      (\<forall>t. index \<le> t \<and> t < n \<longrightarrow> mem w3 b (Suc t) = mem w a t) \<and> (\<forall>x>n. mem w3 b x = None)"
  let ?A3 = "\<lambda>w3. ?J w3 \<and> (\<forall>x. (mem w3 a x = None) = (mem w a x = None)) \<and> ?B w3"
  let ?A4 = "\<lambda>w4. ?J w4 \<and> (\<forall>x<n. mem w4 a x = None) \<and> ?B w4"
  have b1: "blocks w1 a = Some n" "blocks w1 b = Some N" using fr ab ba by auto
  \<comment> \<open>the elements before the position\<close>
  have "proper
      (\<lambda>w' _. ((\<forall>c. c \<noteq> a \<and> c \<noteq> b \<longrightarrow> mem w' c = mem w1 c) \<and>
               (\<forall>t<index. mem w' b (0 + t) = mem w1 a (0 + t)) \<and>
               (\<forall>x. x < 0 \<or> 0 + index \<le> x \<longrightarrow> mem w' b x = mem w1 b x) \<and>
               (\<forall>x. (mem w' a x = None) = (mem w1 a x = None)) \<and>
               (\<forall>x. x < 0 \<or> 0 + index \<le> x \<longrightarrow> mem w' a x = mem w1 a x) \<and>
               (\<not> CanMove T \<longrightarrow> mem w' a = mem w1 a)) \<and> mem_only w1 w')
      (\<lambda>w'. (\<not> nothrow_move_constructible T \<and>
             (\<forall>c. c \<noteq> a \<longrightarrow> mem w' c = mem w1 c) \<and>
             (\<forall>x. (mem w' a x = None) = (mem w1 a x = None)) \<and>
             (copy_constructible T \<longrightarrow> mem w' a = mem w1 a)) \<and> mem_only w1 w')
      (MoveOrCopyN T (Ptr a 0) index (Ptr b 0) w1)"
    by (rule proper_ends [OF MoveOrCopyN_slots [OF b1 ab(1)] MoveOrCopyN_mem_only])
      (use la m1 ix in auto)
  then have s2: "proper (\<lambda>w2 _. ?A2 w2)
      (\<lambda>w'. \<not> nothrow_move_constructible T \<and> ?J w' \<and> mem w' b = mem w1 b \<and>
            (copy_constructible T \<longrightarrow> mem w' a = mem w a))
      (MoveOrCopyN T (Ptr a 0) index (Ptr b 0) w1)"
    by (rule proper_mono) (use m1 ab in auto)
  have c2: "proper (\<lambda>w'' _. ?E w'') ?E (destroy_at (Ptr b index) w')"
    if "\<not> nothrow_move_constructible T \<and> ?J w' \<and> mem w' b = mem w1 b \<and>
            (copy_constructible T \<longrightarrow> mem w' a = mem w a)" for w'
  proof -
    have "proper (\<lambda>w'' _. mem_only w' w'' \<and> mem w'' = (mem w')(b := (mem w' b)(index := None)))
           (\<lambda>_. False) (destroy_at (Ptr b index) w')"
      by (rule destroy_at_slot [where N = N]) (use that b1 m1 ix in \<open>auto simp: mem_only_def\<close>)
    then show ?thesis
      by (rule proper_mono) (use that m1 ab in \<open>auto simp: mem_only_def\<close>)
  qed
  \<comment> \<open>the elements from the position on\<close>
  have s3: "proper (\<lambda>w3 _. ?A3 w3)
      (\<lambda>w'. ?J w' \<and> mem w' b = mem w2 b \<and> (copy_constructible T \<longrightarrow> mem w' a = mem w a))
      (MoveOrCopyN T (Ptr a index) (n - index) (Ptr b (Suc index)) w2)"
    if a2: "?A2 w2" for w2
  proof -
    have b2: "blocks w2 a = Some n" "blocks w2 b = Some N"
      using a2 b1 by (auto simp: mem_only_def)
    have "proper
      (\<lambda>w' _. ((\<forall>c. c \<noteq> a \<and> c \<noteq> b \<longrightarrow> mem w' c = mem w2 c) \<and>
               (\<forall>t<n - index. mem w' b (Suc index + t) = mem w2 a (index + t)) \<and>
               (\<forall>x. x < Suc index \<or> Suc index + (n - index) \<le> x \<longrightarrow> mem w' b x = mem w2 b x) \<and>
               (\<forall>x. (mem w' a x = None) = (mem w2 a x = None)) \<and>
               (\<forall>x. x < index \<or> index + (n - index) \<le> x \<longrightarrow> mem w' a x = mem w2 a x) \<and>
               (\<not> CanMove T \<longrightarrow> mem w' a = mem w2 a)) \<and> mem_only w2 w')
      (\<lambda>w'. (\<not> nothrow_move_constructible T \<and>
             (\<forall>c. c \<noteq> a \<longrightarrow> mem w' c = mem w2 c) \<and>
             (\<forall>x. (mem w' a x = None) = (mem w2 a x = None)) \<and>
             (copy_constructible T \<longrightarrow> mem w' a = mem w2 a)) \<and> mem_only w2 w')
      (MoveOrCopyN T (Ptr a index) (n - index) (Ptr b (Suc index)) w2)"
      by (rule proper_ends [OF MoveOrCopyN_slots [OF b2 ab(1)] MoveOrCopyN_mem_only])
        (use la a2 ix in auto)
    then show ?thesis
    proof (rule proper_mono, goal_cases)
      case (1 w3 r)
      have "mem w3 b (Suc t) = mem w a t" if "index \<le> t" "t < n" for t
      proof -
        have "t - index < n - index" using that by arith
        moreover have "\<forall>u<n - index. mem w3 b (Suc index + u) = mem w2 a (index + u)"
          using 1 by blast
        ultimately have "mem w3 b (Suc index + (t - index)) = mem w2 a (index + (t - index))"
          by blast
        then show ?thesis using that a2 by simp
      qed
      moreover have "mem w3 b x = None" if "x > n" for x
        using 1 a2 that ix by auto
      moreover have "mem_only w1 w3" using 1 a2 by (auto intro: mem_only_trans)
      ultimately show ?case using 1 a2 ab by auto
    next
      case (2 w')
      have "copy_constructible T \<longrightarrow> \<not> CanMove T" using 2 by (auto simp: CanMove_def)
      moreover have "mem_only w1 w'" using 2 a2 by (auto intro: mem_only_trans)
      ultimately show ?case using 2 a2 ab by auto
    qed
  qed
  have c3: "proper (\<lambda>w'' _. ?E w'') ?E (destroy_n (Ptr b 0) (Suc index) w')"
    if a2: "?A2 w2"
      and "?J w' \<and> mem w' b = mem w2 b \<and> (copy_constructible T \<longrightarrow> mem w' a = mem w a)"
    for w2 w'
  proof -
    have b3: "blocks w' b = Some N" using that b1 by (auto simp: mem_only_def)
    have lv: "\<forall>t<Suc index. mem w' b (0 + t) \<noteq> None"
      using that la ix by (auto simp: less_Suc_eq)
    have "proper
           (\<lambda>w'' _. ((\<forall>c. c \<noteq> b \<longrightarrow> mem w'' c = mem w' c) \<and>
                    (\<forall>t<Suc index. mem w'' b (0 + t) = None) \<and>
                    (\<forall>x. x < 0 \<or> 0 + Suc index \<le> x \<longrightarrow> mem w'' b x = mem w' b x)) \<and> mem_only w' w'')
           (\<lambda>w''. False \<and> mem_only w' w'') (destroy_n (Ptr b 0) (Suc index) w')"
      by (rule proper_ends [OF destroy_n_slots [OF b3 _ lv] destroy_n_mem_only]) (use ix in simp)
    then show ?thesis
    proof (rule proper_mono, goal_cases)
      case (1 w'' r)
      have "mem w'' b x = None" for x
        using 1 that by (cases "x < Suc index") (auto simp: not_less)
      moreover have "mem_only w1 w''" using 1 that by (auto intro: mem_only_trans)
      ultimately show ?case using 1 that ab by auto
    qed simp
  qed
  \<comment> \<open>the old elements are destroyed\<close>
  have d4: "proper (\<lambda>w4 _. ?A4 w4) ?E (destroy_n (Ptr a 0) n w3)" if a3: "?A3 w3" for w3
  proof -
    have b3: "blocks w3 a = Some n" using a3 b1 by (auto simp: mem_only_def)
    have lv: "\<forall>t<n. mem w3 a (0 + t) \<noteq> None" using a3 la by auto
    have "proper
           (\<lambda>w'' _. ((\<forall>c. c \<noteq> a \<longrightarrow> mem w'' c = mem w3 c) \<and>
                    (\<forall>t<n. mem w'' a (0 + t) = None) \<and>
                    (\<forall>x. x < 0 \<or> 0 + n \<le> x \<longrightarrow> mem w'' a x = mem w3 a x)) \<and> mem_only w3 w'')
           (\<lambda>w''. False \<and> mem_only w3 w'') (destroy_n (Ptr a 0) n w3)"
      by (rule proper_ends [OF destroy_n_slots [OF b3 _ lv] destroy_n_mem_only]) simp
    then show ?thesis
    proof (rule proper_mono, goal_cases)
      case (1 w4 r)
      have "mem_only w1 w4" using 1 a3 by (auto intro: mem_only_trans)
      then show ?case using 1 a3 ab by auto
    qed simp
  qed
  have inner: "proper (\<lambda>w4 _. ?A4 w4) ?E
      (bnd (unwind (MoveOrCopyN T (Ptr a 0) index (Ptr b 0) w1) (destroy_at (Ptr b index)))
         (\<lambda>w2 _.
            bnd (unwind (MoveOrCopyN T (Ptr a index) (n - index) (Ptr b (Suc index)) w2)
                   (destroy_n (Ptr b 0) (Suc index)))
              (\<lambda>w3 _. destroy_n (Ptr a 0) n w3)))"
  proof (rule proper_bnd [OF proper_unwind [OF s2 c2]], goal_cases)
    case (2 w2 r)
    show ?case
      by (rule proper_bnd [OF proper_unwind [OF s3 [OF 2] c3 [OF 2]] d4]) auto
  qed auto
  \<comment> \<open>an exception releases the new block, a normal end the old one\<close>
  have out: "proper (\<lambda>w'' _. copy_constructible T \<longrightarrow> restored w w'')
      (\<lambda>w''. copy_constructible T \<longrightarrow> restored w w'')
      (RawMemory_dtor \<lparr>m_buffer = Ptr b 0, m_capacity = N\<rparr> w')" if "?E w'" for w'
  proof -
    have "proper (\<lambda>w'' _. blocks w'' = (blocks w')(b := None) \<and> mem w'' = mem w' \<and> brk w'' = brk w' \<and>
                   vecs w'' = vecs w' \<and> leaked w'' = leaked w')
           (\<lambda>_. False) (Deallocate (Ptr b 0) w')"
      by (rule Deallocate_raw [where N = N]) (use that b1 in \<open>auto simp: mem_only_def\<close>)
    moreover have eq: "RawMemory_dtor \<lparr>m_buffer = Ptr b 0, m_capacity = N\<rparr> w' = Deallocate (Ptr b 0) w'"
      by (simp add: RawMemory_dtor_def)
    ultimately show ?thesis
      unfolding eq
    proof (elim proper_mono, goal_cases)
      case (1 w'' r)
      have "mem w'' c = mem w c" if "copy_constructible T" "c \<noteq> brk w" for c
        using 1 that \<open>?E w'\<close> ab by (cases "c = a") auto
      then show ?case
        using 1 \<open>?E w'\<close> fr ab by (auto simp: mem_only_def intro!: restoredI)
    qed simp
  qed
  have fin: "proper
     (\<lambda>w' _. vecs w' = (vecs w)(this := (vecs w this)\<lparr>m_data := \<lparr>m_buffer = Ptr b 0, m_capacity = N\<rparr>\<rparr>)
        \<and> brk w' = Suc b \<and> blocks w' = (blocks w)(b := Some N, a := None) \<and> leaked w' = leaked w
        \<and> (\<forall>c. c \<noteq> a \<and> c \<noteq> b \<longrightarrow> mem w' c = mem w c) \<and> ?B w')
     (\<lambda>w'. copy_constructible T \<longrightarrow> restored w w')
     (Deallocate (Ptr a 0) (set_data this \<lparr>m_buffer = Ptr b 0, m_capacity = N\<rparr> w4))"
    if a4: "?A4 w4" for w4
  proof -
    let ?w5 = "set_data this \<lparr>m_buffer = Ptr b 0, m_capacity = N\<rparr> w4"
    have "proper (\<lambda>w'' _. blocks w'' = (blocks ?w5)(a := None) \<and> mem w'' = mem ?w5 \<and> brk w'' = brk ?w5 \<and>
                   vecs w'' = vecs ?w5 \<and> leaked w'' = leaked ?w5)
           (\<lambda>_. False) (Deallocate (Ptr a 0) ?w5)"
      by (rule Deallocate_raw [where N = n]) (use a4 b1 in \<open>auto simp: mem_only_def\<close>)
    then show ?thesis
      by (rule proper_mono) (use a4 fr ab in \<open>auto simp: mem_only_def\<close>)
  qed
  show ?thesis
    by (rule proper_bnd [OF proper_unwind [OF inner out] fin]) auto
qed


lemma insert_reallocating_spec:
  assumes v: "valid w this" and full: "Size w this = Capacity w this"
    and idx: "index \<le> Size w this" and N: "Size w this < N"
  shows "proper
     (\<lambda>w' _. vecs w' = (vecs w)(this := (vecs w this)\<lparr>m_data := \<lparr>m_buffer = Ptr (brk w) 0, m_capacity = N\<rparr>\<rparr>)
        \<and> brk w' = Suc (brk w) \<and> blocks w' (brk w) = Some N \<and> leaked w' = leaked w
        \<and> (\<forall>x<index. mem w' (brk w) x = elems w this ! x)
        \<and> mem w' (brk w) index = Some (init_value a)
        \<and> (\<forall>t. index \<le> t \<and> t < Size w this \<longrightarrow> mem w' (brk w) (Suc t) = elems w this ! t)
        \<and> (\<forall>x>Size w this. mem w' (brk w) x = None))
     (\<lambda>w'. copy_constructible T \<or> fails T w (init_event a) \<longrightarrow> restored w w')
     (insert_reallocating T this N index a w)"
proof (cases "m_buffer (m_data (vecs w this))")
  case Null
  have z: "m_size (vecs w this) = 0" "index = 0"
    using valid_Null [OF v Null] idx by (auto simp: Size_def)
  have "proper
     (\<lambda>w' _. vecs w' = (vecs w)(this := (vecs w this)\<lparr>m_data := \<lparr>m_buffer = Ptr (brk w) 0, m_capacity = N\<rparr>\<rparr>)
        \<and> brk w' = Suc (brk w) \<and> blocks w' = (blocks w)(brk w := Some N) \<and> leaked w' = leaked w
        \<and> (\<forall>c. c \<noteq> brk w \<longrightarrow> mem w' c = mem w c)
        \<and> (\<forall>x. mem w' (brk w) x = (if x = 0 then Some (init_value a) else None)))
     (\<lambda>w'. restored w w' \<and> fails T w (init_event a))
     (insert_reallocating T this N 0 a w)"
    by (rule insert_reallocating_Null [OF Null z(1)]) (use N in simp)
  then show ?thesis
    unfolding z by (rule proper_mono) (auto simp: Size_def z)
next
  case (Ptr a' i)
  note vp = valid_Ptr [OF v Ptr]
  have buf: "m_buffer (m_data (vecs w this)) = Ptr a' 0" using Ptr vp(1) by simp
  let ?n = "m_size (vecs w this)"
  let ?b = "brk w"
  let ?w0 = "w\<lparr>blocks := (blocks w)(?b := Some N), mem := (mem w)(?b := (\<lambda>_. None)), brk := Suc ?b\<rparr>"
  let ?ev = "init_event a"
  have cap: "m_capacity (m_data (vecs w this)) = ?n"
    using full by (simp add: Size_def Capacity_def RawMemory_Capacity_def)
  have f: "fails T ?w0 ?ev = fails T w ?ev"
    by (rule fails_events) simp
  have N0: "N \<noteq> 0" "index < N" "?n < N" "index \<le> ?n" using N idx by (auto simp: Size_def)
  have el: "elems w this ! x = mem w a' x" if "x < ?n" for x
    by (rule elems_nth [OF v Ptr that])
  show ?thesis
  proof (cases "fails T w ?ev")
    case True
    have "proper (\<lambda>w' _. blocks w' = (blocks (emit ?ev ?w0))(?b := None) \<and>
              mem w' = mem (emit ?ev ?w0) \<and> brk w' = brk (emit ?ev ?w0) \<and>
              vecs w' = vecs (emit ?ev ?w0) \<and> leaked w' = leaked (emit ?ev ?w0))
            (\<lambda>_. False) (Deallocate (Ptr ?b 0) (emit ?ev ?w0))"
      by (rule Deallocate_raw [where N = N]) simp_all
    then show ?thesis
      using True f N0
      by (cases "Deallocate (Ptr ?b 0) (emit ?ev ?w0)")
        (auto simp: insert_reallocating_def RawMemory_ctor_eq Let_def RawMemory_plus_def
          construct_at_raw [where N = N] RawMemory_dtor_def GetAddress_def intro!: restoredI)
  next
    case False
    let ?w1 = "store (Ptr ?b index) (Some (init_value a)) (emit ?ev ?w0)"
    have body: "proper
     (\<lambda>w' _. vecs w' = (vecs w)(this := (vecs w this)\<lparr>m_data := \<lparr>m_buffer = Ptr ?b 0, m_capacity = N\<rparr>\<rparr>)
        \<and> brk w' = Suc ?b \<and> blocks w' = (blocks w)(?b := Some N, a' := None) \<and> leaked w' = leaked w
        \<and> (\<forall>c. c \<noteq> a' \<and> c \<noteq> ?b \<longrightarrow> mem w' c = mem w c)
        \<and> (\<forall>x<index. mem w' ?b x = mem w a' x) \<and> mem w' ?b index = Some (init_value a)
        \<and> (\<forall>t. index \<le> t \<and> t < ?n \<longrightarrow> mem w' ?b (Suc t) = mem w a' t)
        \<and> (\<forall>x>?n. mem w' ?b x = None))
     (\<lambda>w'. copy_constructible T \<longrightarrow> restored w w')
     (bnd (unwind
            (bnd (unwind (MoveOrCopyN T (Ptr a' 0) index (Ptr ?b 0) ?w1) (destroy_at (Ptr ?b index)))
               (\<lambda>w2 _.
                  bnd (unwind (MoveOrCopyN T (Ptr a' index) (?n - index) (Ptr ?b (Suc index)) w2)
                         (destroy_n (Ptr ?b 0) (Suc index)))
                    (\<lambda>w3 _. destroy_n (Ptr a' 0) ?n w3)))
            (RawMemory_dtor \<lparr>m_buffer = Ptr ?b 0, m_capacity = N\<rparr>))
        (\<lambda>w4 _. Deallocate (Ptr a' 0) (set_data this \<lparr>m_buffer = Ptr ?b 0, m_capacity = N\<rparr> w4)))"
      by (rule realloc_body) (use vp cap N0 in auto)
    have "insert_reallocating T this N index a w =
      bnd (unwind
            (bnd (unwind (MoveOrCopyN T (Ptr a' 0) index (Ptr ?b 0) ?w1) (destroy_at (Ptr ?b index)))
               (\<lambda>w2 _.
                  bnd (unwind (MoveOrCopyN T (Ptr a' index) (?n - index) (Ptr ?b (Suc index)) w2)
                         (destroy_n (Ptr ?b 0) (Suc index)))
                    (\<lambda>w3 _. destroy_n (Ptr a' 0) ?n w3)))
            (RawMemory_dtor \<lparr>m_buffer = Ptr ?b 0, m_capacity = N\<rparr>))
        (\<lambda>w4 _. Deallocate (Ptr a' 0) (set_data this \<lparr>m_buffer = Ptr ?b 0, m_capacity = N\<rparr> w4))"
      using buf N0 False f
      by (simp add: insert_reallocating_def RawMemory_ctor_eq Let_def RawMemory_plus_def
          construct_at_raw [where N = N] RawMemory_dtor_def GetAddress_def)
    moreover have "a' \<noteq> ?b" using vp by simp
    ultimately show ?thesis
      using body False el N0 by (auto elim!: proper_mono simp: Size_def)
  qed
qed

lemma inserted_abstraction:
  assumes "m_buffer (m_data (vecs w' this)) = Ptr b 0"
    and "m_capacity (m_data (vecs w' this)) = N" and "m_size (vecs w' this) = Suc n"
    and "n < N" "b < brk w'" "blocks w' b = Some N"
    and "length xs = n" "index \<le> n" "\<forall>x<n. xs ! x \<noteq> None"
    and "\<forall>x<index. mem w' b x = xs ! x" and "mem w' b index = Some v"
    and "\<forall>t. index \<le> t \<and> t < n \<longrightarrow> mem w' b (Suc t) = xs ! t"
    and "\<forall>x. n < x \<and> x < N \<longrightarrow> mem w' b x = None"
  shows "valid w' this" and "elems w' this = take index xs @ [Some v] @ drop index xs"
proof -
  have live: "mem w' b x \<noteq> None" if "x < Suc n" for x
  proof -
    have "x < index \<or> x = index \<or> (\<exists>t. x = Suc t \<and> index \<le> t \<and> t < n)"
      using that by (cases x) auto
    then consider "x < index" | "x = index" | t where "x = Suc t" "index \<le> t" "t < n"
      by blast
    then show ?thesis using assms by cases auto
  qed
  show "valid w' this"
    by (rule validI [OF assms(1)]) (use assms live in auto)
  have e: "elems w' this = map (mem w' b) [0..<Suc n]"
    using assms elems_Ptr [of w' this b] by simp
  show "elems w' this = take index xs @ [Some v] @ drop index xs"
  proof (rule nth_equalityI)
    show "length (elems w' this) = length (take index xs @ [Some v] @ drop index xs)"
      using assms e by simp
  next
    fix x assume "x < length (elems w' this)"
    then have x: "x < Suc n" using e by simp
    have "x < index \<or> x = index \<or> (\<exists>t. x = Suc t \<and> index \<le> t \<and> t < n)"
      using x by (cases x) auto
    then consider "x < index" | "x = index" | t where "x = Suc t" "index \<le> t" "t < n"
      by blast
    then show "elems w' this ! x = (take index xs @ [Some v] @ drop index xs) ! x"
    proof cases
      case 1
      then show ?thesis using assms e x by (simp add: nth_append del: upt_Suc)
    next
      case 2
      then show ?thesis using assms e x by (simp add: nth_append del: upt_Suc)
    next
      case 3
      then have "(take index xs @ [Some v] @ drop index xs) ! x = xs ! t"
        using assms by (simp add: nth_append min_def Suc_diff_le)
      moreover have "elems w' this ! x = mem w' b (Suc t)"
        using e x 3 by (simp del: upt_Suc)
      ultimately show ?thesis using assms 3 by simp
    qed
  qed
qed

section \<open>Insertion in place\<close>

lemma move_assign_at_live:
  assumes "blocks w a = Some na" "p < na" "q < na" "mem w a p = Some y" "mem w a q = Some x"
  shows "move_assign_at T (Ptr a p) (Ptr a q) w =
     (if fails T w (MoveAssign y x) then Throw (emit (MoveAssign y x) w)
      else Ok (store (Ptr a p) (Some x) (store (Ptr a q) (Some (moved_from T x)) (emit (MoveAssign y x) w))) ())"
  using assms by (simp add: move_assign_at_def)

lemma move_backward_loop_slots:
  assumes "blocks w a = Some na" "s + cnt < na"
    and "\<forall>x. s \<le> x \<and> x \<le> s + cnt \<longrightarrow> mem w a x \<noteq> None"
  shows "proper
           (\<lambda>w' _. (\<forall>c. c \<noteq> a \<longrightarrow> mem w' c = mem w c) \<and>
                    (\<forall>t<cnt. mem w' a (Suc (s + t)) = mem w a (s + t)) \<and>
                    mem w' a s \<noteq> None \<and>
                    (\<forall>x. x < s \<or> s + cnt < x \<longrightarrow> mem w' a x = mem w a x))
           (\<lambda>w'. (\<forall>c. c \<noteq> a \<longrightarrow> mem w' c = mem w c) \<and>
                 (\<forall>x. (mem w' a x = None) = (mem w a x = None)))
           (move_backward_loop T (Ptr a (s + cnt)) (Ptr a (Suc (s + cnt))) cnt w)"
  using assms
proof (induction cnt arbitrary: w)
  case 0
  then show ?case by simp
next
  case (Suc cnt)
  let ?q = "s + cnt" and ?p = "Suc (s + cnt)"
  have "mem w a ?q \<noteq> None" "mem w a ?p \<noteq> None"
    using Suc.prems(3) [rule_format, of ?q] Suc.prems(3) [rule_format, of ?p] by auto
  then obtain x y where x: "mem w a ?q = Some x" and y: "mem w a ?p = Some y" by auto
  let ?ev = "MoveAssign y x"
  have ma: "move_assign_at T (Ptr a ?p) (Ptr a ?q) w =
     (if fails T w ?ev then Throw (emit ?ev w)
      else Ok (store (Ptr a ?p) (Some x) (store (Ptr a ?q) (Some (moved_from T x)) (emit ?ev w))) ())"
    by (rule move_assign_at_live [OF Suc.prems(1) _ _ y x]) (use Suc.prems in auto)
  show ?case
  proof (cases "fails T w ?ev")
    case True
    then show ?thesis by (simp add: ma)
  next
    case False
    let ?w1 = "store (Ptr a ?p) (Some x) (store (Ptr a ?q) (Some (moved_from T x)) (emit ?ev w))"
    have p3: "\<forall>z. s \<le> z \<and> z \<le> s + cnt \<longrightarrow> mem ?w1 a z \<noteq> None"
      using Suc.prems(3) by auto
    have "proper
           (\<lambda>w' _. (\<forall>c. c \<noteq> a \<longrightarrow> mem w' c = mem ?w1 c) \<and>
                    (\<forall>t<cnt. mem w' a (Suc (s + t)) = mem ?w1 a (s + t)) \<and>
                    mem w' a s \<noteq> None \<and>
                    (\<forall>x. x < s \<or> s + cnt < x \<longrightarrow> mem w' a x = mem ?w1 a x))
           (\<lambda>w'. (\<forall>c. c \<noteq> a \<longrightarrow> mem w' c = mem ?w1 c) \<and>
                 (\<forall>x. (mem w' a x = None) = (mem ?w1 a x = None)))
           (move_backward_loop T (Ptr a (s + cnt)) (Ptr a (Suc (s + cnt))) cnt ?w1)"
      by (rule Suc.IH [OF _ _ p3]) (use Suc.prems in auto)
    moreover have e: "move_backward_loop T (Ptr a (s + Suc cnt)) (Ptr a (Suc (s + Suc cnt))) (Suc cnt) w
        = move_backward_loop T (Ptr a (s + cnt)) (Ptr a (Suc (s + cnt))) cnt ?w1"
      using False by (simp add: ma)
    ultimately show ?thesis
      unfolding e
    proof (elim proper_mono, goal_cases)
      case (1 w' r)
      have "mem w' a (Suc (s + t)) = mem w a (s + t)" if "t < Suc cnt" for t
      proof (cases "t = cnt")
        case True
        then show ?thesis using 1 x by auto
      next
        case False
        then have "t < cnt" using that by simp
        then show ?thesis using 1 by auto
      qed
      then show ?case using 1 by auto
    next
      case (2 w')
      then show ?case using x y by auto
    qed
  qed
qed

lemma move_backward_slots:
  assumes "blocks w a = Some na" "n \<le> na" "index < n"
    and "\<forall>x. index \<le> x \<and> x < n \<longrightarrow> mem w a x \<noteq> None"
  shows "proper
           (\<lambda>w' _. (\<forall>c. c \<noteq> a \<longrightarrow> mem w' c = mem w c) \<and>
                    (\<forall>t. index \<le> t \<and> Suc t < n \<longrightarrow> mem w' a (Suc t) = mem w a t) \<and>
                    mem w' a index \<noteq> None \<and>
                    (\<forall>x. x < index \<or> n \<le> x \<longrightarrow> mem w' a x = mem w a x))
           (\<lambda>w'. (\<forall>c. c \<noteq> a \<longrightarrow> mem w' c = mem w c) \<and>
                 (\<forall>x. (mem w' a x = None) = (mem w a x = None)))
           (move_backward T (Ptr a index) (Ptr a (n - 1)) (Ptr a n) w)"
proof -
  let ?cnt = "n - 1 - index"
  have e: "n - 1 = index + ?cnt" "n = Suc (index + ?cnt)" using assms by auto
  have "proper
           (\<lambda>w' _. (\<forall>c. c \<noteq> a \<longrightarrow> mem w' c = mem w c) \<and>
                    (\<forall>t<?cnt. mem w' a (Suc (index + t)) = mem w a (index + t)) \<and>
                    mem w' a index \<noteq> None \<and>
                    (\<forall>x. x < index \<or> index + ?cnt < x \<longrightarrow> mem w' a x = mem w a x))
           (\<lambda>w'. (\<forall>c. c \<noteq> a \<longrightarrow> mem w' c = mem w c) \<and>
                 (\<forall>x. (mem w' a x = None) = (mem w a x = None)))
           (move_backward_loop T (Ptr a (index + ?cnt)) (Ptr a (Suc (index + ?cnt))) ?cnt w)"
    by (rule move_backward_loop_slots [OF assms(1)]) (use assms in auto)
  then have "proper
           (\<lambda>w' _. (\<forall>c. c \<noteq> a \<longrightarrow> mem w' c = mem w c) \<and>
                    (\<forall>t. index \<le> t \<and> Suc t < n \<longrightarrow> mem w' a (Suc t) = mem w a t) \<and>
                    mem w' a index \<noteq> None \<and>
                    (\<forall>x. x < index \<or> n \<le> x \<longrightarrow> mem w' a x = mem w a x))
           (\<lambda>w'. (\<forall>c. c \<noteq> a \<longrightarrow> mem w' c = mem w c) \<and>
                 (\<forall>x. (mem w' a x = None) = (mem w a x = None)))
           (move_backward_loop T (Ptr a (index + ?cnt)) (Ptr a (Suc (index + ?cnt))) ?cnt w)"
  proof (rule proper_mono, goal_cases)
    case (1 w' r)
    have "mem w' a (Suc t) = mem w a t" if "index \<le> t" "Suc t < n" for t
    proof -
      have "t - index < ?cnt" using that by arith
      then have "mem w' a (Suc (index + (t - index))) = mem w a (index + (t - index))"
        using 1 by blast
      then show ?thesis using that by simp
    qed
    moreover have "mem w' a x = mem w a x" if "x < index \<or> n \<le> x" for x
      using 1 that assms(3) by auto
    ultimately show ?case using 1 by auto
  qed simp
  moreover have "move_backward T (Ptr a index) (Ptr a (n - 1)) (Ptr a n) w =
      move_backward_loop T (Ptr a (index + ?cnt)) (Ptr a (Suc (index + ?cnt))) ?cnt w"
    using assms(3) e by (simp add: move_backward_def)
  ultimately show ?thesis by simp
qed


lemma insert_in_place_spec:
  assumes ba: "blocks w a = Some cap" and n: "n < cap" "index < n"
    and live: "\<forall>x<n. mem w a x \<noteq> None" and raw: "mem w a n = None"
    and d: "m_buffer d = Ptr a 0" "m_capacity d = cap"
  shows "proper
     (\<lambda>w' _. mem_only w w' \<and> (\<forall>c. c \<noteq> a \<longrightarrow> mem w' c = mem w c) \<and>
        (\<forall>x<index. mem w' a x = mem w a x) \<and> mem w' a index = Some (init_value init) \<and>
        (\<forall>t. index \<le> t \<and> t < n \<longrightarrow> mem w' a (Suc t) = mem w a t) \<and>
        (\<forall>x>n. mem w' a x = mem w a x))
     (\<lambda>w'. mem_only w w')
     (insert_in_place T d n index (Some (Ptr a (n - 1))) init w)"
proof (cases "fails T w (init_event init)")
  case True
  then show ?thesis
    by (simp add: insert_in_place_def construct_local_def)
next
  case False
  let ?v = "init_value init"
  let ?w1 = "emit (init_event init) w"
  let ?J = "\<lambda>w'. mem_only w w' \<and> (\<forall>c. c \<noteq> a \<longrightarrow> mem w' c = mem w c)"
  let ?A2 = "\<lambda>w2. ?J w2 \<and> mem w2 a n = mem w a (n - 1) \<and> mem w2 a (n - 1) \<noteq> None \<and>
      (\<forall>x. x \<noteq> n \<and> x \<noteq> n - 1 \<longrightarrow> mem w2 a x = mem w a x)"
  let ?A3 = "\<lambda>w3. ?J w3 \<and> (\<forall>t. index \<le> t \<and> t < n \<longrightarrow> mem w3 a (Suc t) = mem w a t) \<and>
      mem w3 a index \<noteq> None \<and> (\<forall>x. x < index \<or> n < x \<longrightarrow> mem w3 a x = mem w a x)"
  have "n - 1 < n" using n by simp
  then have "mem w a (n - 1) \<noteq> None" using live by blast
  then obtain z where z: "mem w a (n - 1) = Some z" by auto
  have s1: "proper (\<lambda>w2 _. ?A2 w2) (\<lambda>w'. mem_only w w')
      (move_construct_at T (Ptr a n) (Ptr a (n - 1)) ?w1)"
    using ba n raw z by (auto simp: move_construct_at_def mem_only_def)
  have s2: "proper (\<lambda>w3 _. ?A3 w3) (\<lambda>w'. mem_only w w' \<and> mem w' a n \<noteq> None)
      (move_backward T (Ptr a index) (Ptr a (n - 1)) (Ptr a n) w2)" if a2: "?A2 w2" for w2
  proof -
    have b2: "blocks w2 a = Some cap" using a2 ba by (simp add: mem_only_def)
    have l2: "\<forall>x. index \<le> x \<and> x < n \<longrightarrow> mem w2 a x \<noteq> None"
    proof (intro allI impI)
      fix x assume "index \<le> x \<and> x < n"
      then show "mem w2 a x \<noteq> None" using a2 live by (cases "x = n - 1") auto
    qed
    have "proper
           (\<lambda>w' _. ((\<forall>c. c \<noteq> a \<longrightarrow> mem w' c = mem w2 c) \<and>
                    (\<forall>t. index \<le> t \<and> Suc t < n \<longrightarrow> mem w' a (Suc t) = mem w2 a t) \<and>
                    mem w' a index \<noteq> None \<and>
                    (\<forall>x. x < index \<or> n \<le> x \<longrightarrow> mem w' a x = mem w2 a x)) \<and> mem_only w2 w')
           (\<lambda>w'. ((\<forall>c. c \<noteq> a \<longrightarrow> mem w' c = mem w2 c) \<and>
                 (\<forall>x. (mem w' a x = None) = (mem w2 a x = None))) \<and> mem_only w2 w')
           (move_backward T (Ptr a index) (Ptr a (n - 1)) (Ptr a n) w2)"
      by (rule proper_ends [OF move_backward_slots [OF b2 _ n(2) l2] move_backward_mem_only])
        (use n in simp)
    then show ?thesis
    proof (rule proper_mono, goal_cases)
      case (1 w3 r)
      have "mem w3 a (Suc t) = mem w a t" if "index \<le> t" "t < n" for t
      proof (cases "Suc t < n")
        case True
        then show ?thesis using 1 a2 that by auto
      next
        case False
        then have "t = n - 1" "Suc t = n" using that by auto
        then show ?thesis using 1 a2 by auto
      qed
      moreover have "mem_only w w3" using 1 a2 by (auto intro: mem_only_trans)
      ultimately show ?case using 1 a2 n by auto
    next
      case (2 w')
      have "mem_only w w'" using 2 a2 by (auto intro: mem_only_trans)
      then show ?case using 2 a2 z by auto
    qed
  qed
  have c2: "proper (\<lambda>w'' _. mem_only w w'') (\<lambda>w'. mem_only w w') (destroy_at (Ptr a n) w')"
    if "mem_only w w' \<and> mem w' a n \<noteq> None" for w'
  proof -
    have "proper (\<lambda>w'' _. mem_only w' w'' \<and> mem w'' = (mem w')(a := (mem w' a)(n := None)))
           (\<lambda>_. False) (destroy_at (Ptr a n) w')"
      by (rule destroy_at_slot [where N = cap]) (use that ba n in \<open>auto simp: mem_only_def\<close>)
    then show ?thesis
      by (rule proper_mono) (use that in \<open>auto intro: mem_only_trans\<close>)
  qed
  have s3: "proper
     (\<lambda>w' _. ?J w' \<and> (\<forall>x<index. mem w' a x = mem w a x) \<and> mem w' a index = Some ?v \<and>
        (\<forall>t. index \<le> t \<and> t < n \<longrightarrow> mem w' a (Suc t) = mem w a t) \<and>
        (\<forall>x>n. mem w' a x = mem w a x))
     (\<lambda>w'. mem_only w w')
     (move_assign_local T (Ptr a index) ?v w3)" if a3: "?A3 w3" for w3
  proof -
    from a3 obtain y where y: "mem w3 a index = Some y" by auto
    have b3: "blocks w3 a = Some cap" using a3 ba by (simp add: mem_only_def)
    show ?thesis
      using a3 y b3 n by (auto simp: move_assign_local_def mem_only_def)
  qed
  have body: "proper
     (\<lambda>w' _. ?J w' \<and> (\<forall>x<index. mem w' a x = mem w a x) \<and> mem w' a index = Some ?v \<and>
        (\<forall>t. index \<le> t \<and> t < n \<longrightarrow> mem w' a (Suc t) = mem w a t) \<and>
        (\<forall>x>n. mem w' a x = mem w a x))
     (\<lambda>w'. mem_only w w')
     (bnd (move_construct_at T (Ptr a n) (Ptr a (n - 1)) ?w1)
        (\<lambda>w2 _. bnd (unwind (move_backward T (Ptr a index) (Ptr a (n - 1)) (Ptr a n) w2)
                        (destroy_at (Ptr a n)))
                  (\<lambda>w3 _. move_assign_local T (Ptr a index) ?v w3)))"
  proof (rule proper_bnd [OF s1], goal_cases)
    case (1 w2 r)
    show ?case
      by (rule proper_bnd [OF proper_unwind [OF s2 [OF 1] c2] s3]) auto
  qed auto
  have "proper
     (\<lambda>w' _. ?J w' \<and> (\<forall>x<index. mem w' a x = mem w a x) \<and> mem w' a index = Some ?v \<and>
        (\<forall>t. index \<le> t \<and> t < n \<longrightarrow> mem w' a (Suc t) = mem w a t) \<and>
        (\<forall>x>n. mem w' a x = mem w a x))
     (\<lambda>w'. mem_only w w')
     (bnd (unwind
       (bnd (move_construct_at T (Ptr a n) (Ptr a (n - 1)) ?w1)
        (\<lambda>w2 _. bnd (unwind (move_backward T (Ptr a index) (Ptr a (n - 1)) (Ptr a n) w2)
                        (destroy_at (Ptr a n)))
                  (\<lambda>w3 _. move_assign_local T (Ptr a index) ?v w3)))
       (\<lambda>w'. Ok (destroy_local ?v w') ()))
      (\<lambda>w4 _. Ok (destroy_local (moved_from T ?v) w4) ()))"
    by (rule proper_bnd [OF proper_unwind [OF body]])
      (auto simp: destroy_local_def mem_only_def)
  moreover have "insert_in_place T d n index (Some (Ptr a (n - 1))) init w =
     bnd (unwind
       (bnd (move_construct_at T (Ptr a n) (Ptr a (n - 1)) ?w1)
        (\<lambda>w2 _. bnd (unwind (move_backward T (Ptr a index) (Ptr a (n - 1)) (Ptr a n) w2)
                        (destroy_at (Ptr a n)))
                  (\<lambda>w3 _. move_assign_local T (Ptr a index) ?v w3)))
       (\<lambda>w'. Ok (destroy_local ?v w') ()))
      (\<lambda>w4 _. Ok (destroy_local (moved_from T ?v) w4) ())"
  proof -
    have "n - 1 < cap" "n \<noteq> 0" "n \<le> cap" "index < cap" "index \<le> cap" using n by auto
    then show ?thesis
      using False d
      by (simp add: insert_in_place_def construct_local_def RawMemory_plus_def
          RawMemory_index_pred_def RawMemory_index_def)
  qed
  ultimately show ?thesis by simp
qed

section \<open>Emplace\<close>

lemma finish_insert:
  assumes v: "valid w this" and i: "i \<le> Size w this" and N: "Size w this < N"
    and vs: "vecs w1 = (vecs w)(this := (vecs w this)\<lparr>m_data := \<lparr>m_buffer = Ptr b 0, m_capacity = N\<rparr>\<rparr>)"
    and b: "b < brk w1" "blocks w1 b = Some N"
    and s1: "\<forall>x<i. mem w1 b x = elems w this ! x"
    and s2: "mem w1 b i = Some x"
    and s3: "\<forall>t. i \<le> t \<and> t < Size w this \<longrightarrow> mem w1 b (Suc t) = elems w this ! t"
    and s4: "\<forall>y. Size w this < y \<and> y < N \<longrightarrow> mem w1 b y = None"
  defines "w2 \<equiv> set_size this (m_size (vecs w1 this) + 1) w1"
  shows "valid w2 this \<and> Size w2 this = Suc (Size w this) \<and>
         elems w2 this = take i (elems w this) @ [Some x] @ drop i (elems w this) \<and>
         Capacity w2 this = N \<and> Vector_begin w2 this = Ptr b 0 \<and> leaked w2 = leaked w1"
proof -
  let ?n = "Size w this"
  have nz: "\<forall>y<?n. elems w this ! y \<noteq> None"
  proof (cases "m_buffer (m_data (vecs w this))")
    case Null
    then show ?thesis using valid_Null [OF v Null] by (simp add: Size_def)
  next
    case (Ptr a' k)
    then show ?thesis
      using valid_Ptr(6) [OF v Ptr] elems_nth [OF v Ptr] by (auto simp: Size_def)
  qed
  have f: "m_buffer (m_data (vecs w2 this)) = Ptr b 0" "m_capacity (m_data (vecs w2 this)) = N"
    "m_size (vecs w2 this) = Suc ?n" "b < brk w2" "blocks w2 b = Some N" "mem w2 = mem w1"
    using vs b by (simp_all add: w2_def Size_def)
  have "valid w2 this"
    and "elems w2 this = take i (elems w this) @ [Some x] @ drop i (elems w this)"
    by (rule inserted_abstraction [OF f(1,2,3) N f(4,5) length_elems [OF v] i nz];
        use s1 s2 s3 s4 f(6) in simp)+
  then show ?thesis
    using f vs by (simp add: Size_def Capacity_def RawMemory_Capacity_def Vector_begin_def
        GetAddress_def w2_def)
qed

lemma restored_emit [simp]: "restored w (emit e w)"
  by (auto simp: restored_def)

lemma restored_mem_only: "mem_only w w' \<Longrightarrow> mem w' = mem w \<Longrightarrow> restored w w'"
  by (auto simp: restored_def mem_only_def)

lemma InsertWithoutReallocation_spec:
  assumes v: "valid w this" and i: "i \<le> Size w this" and room: "Size w this < Capacity w this"
  shows "proper
     (\<lambda>w1 _. \<exists>b. vecs w1 = vecs w \<and> Vector_begin w this = Ptr b 0 \<and> b < brk w1 \<and>
        blocks w1 b = Some (Capacity w this) \<and> leaked w1 = leaked w \<and>
        (\<forall>x<i. mem w1 b x = elems w this ! x) \<and> mem w1 b i = Some (init_value a) \<and>
        (\<forall>t. i \<le> t \<and> t < Size w this \<longrightarrow> mem w1 b (Suc t) = elems w this ! t) \<and>
        (\<forall>y. Size w this < y \<and> y < Capacity w this \<longrightarrow> mem w1 b y = None))
     (\<lambda>w'. i = Size w this \<longrightarrow> restored w w')
     (InsertWithoutReallocation T this i a w)"
proof (cases "m_buffer (m_data (vecs w this))")
  case Null
  then show ?thesis
    using valid_Null [OF v Null] room by (simp add: Capacity_def RawMemory_Capacity_def Size_def)
next
  case (Ptr b k)
  note vp = valid_Ptr [OF v Ptr]
  let ?n = "m_size (vecs w this)" and ?cap = "m_capacity (m_data (vecs w this))"
  have buf: "m_buffer (m_data (vecs w this)) = Ptr b 0" using Ptr vp(1) by simp
  have n: "?n < ?cap" "i \<le> ?n"
    using room i by (simp_all add: Size_def Capacity_def RawMemory_Capacity_def)
  have el: "elems w this ! x = mem w b x" if "x < ?n" for x
    by (rule elems_nth [OF v Ptr that])
  show ?thesis
  proof (cases "i = ?n")
    case True
    have "mem w b ?n = None" using vp(7) n by simp
    then have "construct_at T (Ptr b ?n) a w =
       (if fails T w (init_event a) then Throw (emit (init_event a) w)
        else Ok (store (Ptr b ?n) (Some (init_value a)) (emit (init_event a) w)) ())"
      by (intro construct_at_raw [OF vp(4) n(1)])
    then show ?thesis
      using True buf n vp el
      by (auto simp: InsertWithoutReallocation_def RawMemory_plus_def Vector_begin_def
          GetAddress_def Size_def Capacity_def RawMemory_Capacity_def)
  next
    case False
    then have lt: "i < ?n" using n by simp
    have "proper
     (\<lambda>w' _. mem_only w w' \<and> (\<forall>c. c \<noteq> b \<longrightarrow> mem w' c = mem w c) \<and>
        (\<forall>x<i. mem w' b x = mem w b x) \<and> mem w' b i = Some (init_value a) \<and>
        (\<forall>t. i \<le> t \<and> t < ?n \<longrightarrow> mem w' b (Suc t) = mem w b t) \<and>
        (\<forall>x>?n. mem w' b x = mem w b x))
     (\<lambda>w'. mem_only w w')
     (insert_in_place T (m_data (vecs w this)) ?n i (Some (Ptr b (?n - 1))) a w)"
      by (rule insert_in_place_spec [OF vp(4) n(1) lt vp(6) _ buf refl]) (use vp(7) n in simp)
    moreover have "InsertWithoutReallocation T this i a w =
       insert_in_place T (m_data (vecs w this)) ?n i (Some (Ptr b (?n - 1))) a w"
    proof -
      have "?n - 1 \<le> ?cap" "?n \<noteq> 0" using lt n by auto
      then show ?thesis
        using False buf
        by (simp add: InsertWithoutReallocation_def RawMemory_plus_pred_def RawMemory_plus_def
            Let_def)
    qed
    ultimately show ?thesis
      using False lt vp el buf n
      by (auto elim!: proper_mono simp: Vector_begin_def GetAddress_def Size_def Capacity_def
          RawMemory_Capacity_def mem_only_def)
  qed
qed


lemma pos_index:
  assumes "valid w this" "i \<le> Size w this"
  shows "ptr_diff (ptr_add (Vector_begin w this) i) (Vector_begin w this) = Some i"
proof (cases "m_buffer (m_data (vecs w this))")
  case Null
  then show ?thesis
    using valid_Null [OF assms(1) Null] assms(2)
    by (simp add: Vector_begin_def GetAddress_def Size_def)
next
  case (Ptr b k)
  then show ?thesis by (simp add: Vector_begin_def GetAddress_def)
qed

lemma InsertWithReallocation_spec:
  assumes v: "valid w this" and i: "i \<le> Size w this" and full: "\<not> Size w this < Capacity w this"
  defines "N \<equiv> (if Capacity w this = 0 then 1 else 2 * Capacity w this)"
  shows "proper
     (\<lambda>w1 _. vecs w1 = (vecs w)(this := (vecs w this)\<lparr>m_data := \<lparr>m_buffer = Ptr (brk w) 0, m_capacity = N\<rparr>\<rparr>)
        \<and> brk w1 = Suc (brk w) \<and> blocks w1 (brk w) = Some N \<and> leaked w1 = leaked w
        \<and> (\<forall>x<i. mem w1 (brk w) x = elems w this ! x)
        \<and> mem w1 (brk w) i = Some (init_value a)
        \<and> (\<forall>t. i \<le> t \<and> t < Size w this \<longrightarrow> mem w1 (brk w) (Suc t) = elems w this ! t)
        \<and> (\<forall>x>Size w this. mem w1 (brk w) x = None))
     (\<lambda>w'. copy_constructible T \<or> fails T w (init_event a) \<longrightarrow> restored w w')
     (InsertWithReallocation T this i a w)"
proof -
  have eq: "Size w this = Capacity w this" using full valid_size_le [OF v] by simp
  have N: "Size w this < N" "N = (if m_size (vecs w this) = 0 then 1 else m_size (vecs w this) * 2)"
    using eq by (auto simp: N_def Size_def)
  show ?thesis
    unfolding InsertWithReallocation_def Let_def N(2) [symmetric]
    by (rule insert_reallocating_spec [OF v eq i N(1)])
qed

lemma insert_core_spec:
  assumes v: "valid w this" and i: "i \<le> Size w this"
  shows "proper
    (\<lambda>w1 _. valid (set_size this (m_size (vecs w1 this) + 1) w1) this \<and>
       Size (set_size this (m_size (vecs w1 this) + 1) w1) this = Suc (Size w this) \<and>
       elems (set_size this (m_size (vecs w1 this) + 1) w1) this =
         take i (elems w this) @ [Some (init_value a)] @ drop i (elems w this) \<and>
       Capacity (set_size this (m_size (vecs w1 this) + 1) w1) this =
         (if Size w this < Capacity w this then Capacity w this
          else if Capacity w this = 0 then 1 else 2 * Capacity w this) \<and>
       Vector_begin (set_size this (m_size (vecs w1 this) + 1) w1) this =
         (if Size w this < Capacity w this then Vector_begin w this else Ptr (brk w) 0) \<and>
       leaked w1 = leaked w)
    (\<lambda>w'. (i = Size w this \<or> Size w this = Capacity w this) \<and>
           (copy_constructible T \<or> fails T w (init_event a)) \<longrightarrow> restored w w')
    (if m_size (vecs w this) < RawMemory_Capacity (m_data (vecs w this))
     then InsertWithoutReallocation T this i a w
     else InsertWithReallocation T this i a w)"
proof (cases "Size w this < Capacity w this")
  case True
  have "proper
    (\<lambda>w1 _. valid (set_size this (m_size (vecs w1 this) + 1) w1) this \<and>
       Size (set_size this (m_size (vecs w1 this) + 1) w1) this = Suc (Size w this) \<and>
       elems (set_size this (m_size (vecs w1 this) + 1) w1) this =
         take i (elems w this) @ [Some (init_value a)] @ drop i (elems w this) \<and>
       Capacity (set_size this (m_size (vecs w1 this) + 1) w1) this = Capacity w this \<and>
       Vector_begin (set_size this (m_size (vecs w1 this) + 1) w1) this = Vector_begin w this \<and>
       leaked w1 = leaked w)
    (\<lambda>w'. i = Size w this \<longrightarrow> restored w w')
    (InsertWithoutReallocation T this i a w)"
  proof (rule proper_mono [OF InsertWithoutReallocation_spec [OF v i True]], goal_cases)
    case (1 w1 r)
    then obtain b where b: "vecs w1 = vecs w" "Vector_begin w this = Ptr b 0" "b < brk w1"
      "blocks w1 b = Some (Capacity w this)" "leaked w1 = leaked w"
      "\<forall>x<i. mem w1 b x = elems w this ! x" "mem w1 b i = Some (init_value a)"
      "\<forall>t. i \<le> t \<and> t < Size w this \<longrightarrow> mem w1 b (Suc t) = elems w this ! t"
      "\<forall>y. Size w this < y \<and> y < Capacity w this \<longrightarrow> mem w1 b y = None"
      by blast
    have "\<lparr>m_buffer = Ptr b 0, m_capacity = Capacity w this\<rparr> = m_data (vecs w this)"
      using b(2) by (cases "m_data (vecs w this)")
        (simp add: Vector_begin_def GetAddress_def Capacity_def RawMemory_Capacity_def)
    then have vs: "vecs w1 = (vecs w)(this := (vecs w this)\<lparr>m_data := \<lparr>m_buffer = Ptr b 0, m_capacity = Capacity w this\<rparr>\<rparr>)"
      using b(1) by simp
    show ?case
      using finish_insert [OF v i True vs b(3,4,6,7,8,9)] b(2,5) by simp
  qed simp
  then show ?thesis
    using True by (auto simp: Size_def Capacity_def elim!: proper_mono)
next
  case False
  let ?N = "if Capacity w this = 0 then 1 else 2 * Capacity w this"
  have eq: "Size w this = Capacity w this" using False valid_size_le [OF v] by simp
  have N: "Size w this < ?N" using eq by auto
  have "proper
    (\<lambda>w1 _. valid (set_size this (m_size (vecs w1 this) + 1) w1) this \<and>
       Size (set_size this (m_size (vecs w1 this) + 1) w1) this = Suc (Size w this) \<and>
       elems (set_size this (m_size (vecs w1 this) + 1) w1) this =
         take i (elems w this) @ [Some (init_value a)] @ drop i (elems w this) \<and>
       Capacity (set_size this (m_size (vecs w1 this) + 1) w1) this = ?N \<and>
       Vector_begin (set_size this (m_size (vecs w1 this) + 1) w1) this = Ptr (brk w) 0 \<and>
       leaked w1 = leaked w)
    (\<lambda>w'. copy_constructible T \<or> fails T w (init_event a) \<longrightarrow> restored w w')
    (InsertWithReallocation T this i a w)"
  proof (rule proper_mono [OF InsertWithReallocation_spec [OF v i False]], goal_cases)
    case (1 w1 r)
    have s4: "\<forall>y. Size w this < y \<and> y < ?N \<longrightarrow> mem w1 (brk w) y = None"
      using 1 by blast
    have b: "brk w < brk w1" using 1 by simp
    show ?case
      using finish_insert [OF v i N _ b _ _ _ _ s4, of "init_value a"] 1 by simp
  qed simp
  then show ?thesis
    using False by (auto simp: Size_def Capacity_def elim!: proper_mono)
qed

lemma Emplace_v2_spec:
  assumes v: "valid w this" and i: "i \<le> Size w this"
  shows "proper
    (\<lambda>w' r. valid w' this \<and> Size w' this = Suc (Size w this) \<and>
       elems w' this = take i (elems w this) @ [Some (init_value a)] @ drop i (elems w this) \<and>
       Capacity w' this = (if Size w this < Capacity w this then Capacity w this
                           else if Capacity w this = 0 then 1 else 2 * Capacity w this) \<and>
       Vector_begin w' this = (if Size w this < Capacity w this then Vector_begin w this
                               else Ptr (brk w) 0) \<and>
       leaked w' = leaked w \<and> r = ptr_add (Vector_begin w' this) i)
    (\<lambda>w'. (i = Size w this \<or> Size w this = Capacity w this) \<and>
           (copy_constructible T \<or> fails T w (init_event a)) \<longrightarrow> restored w w')
    (Emplace_v2 T this (ptr_add (Vector_begin w this) i) a w)"
  unfolding Emplace_v2_def pos_index [OF v i] option.case Let_def
  by (rule proper_bnd [OF insert_core_spec [OF v i]]) (simp_all add: Vector_begin_def)

lemma Vector_end_valid:
  "valid w this \<Longrightarrow> Vector_end w this = Some (ptr_add (Vector_begin w this) (Size w this))"
  by (simp add: Vector_end_def RawMemory_plus_def Vector_begin_def GetAddress_def Size_def
      valid_def Let_def)

lemma deref_elem:
  assumes "valid w this" "k < Size w this"
  shows "deref w (ptr_add (Vector_begin w this) k) = Some (elems w this ! k)"
proof (cases "m_buffer (m_data (vecs w this))")
  case Null
  then show ?thesis using valid_Null [OF assms(1) Null] assms(2) by (simp add: Size_def)
next
  case (Ptr b j)
  note vp = valid_Ptr [OF assms(1) Ptr]
  show ?thesis
    using Ptr vp assms(2) elems_nth [OF assms(1) Ptr, of k]
    by (simp add: Vector_begin_def GetAddress_def Size_def)
qed

lemma back_index:
  assumes "valid w this" "Size w this = Suc n"
  shows "RawMemory_index_pred (m_data (vecs w this)) (m_size (vecs w this)) =
         Some (ptr_add (Vector_begin w this) n)"
  using assms valid_size_le [OF assms(1)]
  by (simp add: RawMemory_index_pred_def RawMemory_index_def Vector_begin_def GetAddress_def
      Size_def Capacity_def RawMemory_Capacity_def)

lemma EmplaceBack_v1_unfold:
  "EmplaceBack_v1 T this a w =
     bnd (if m_size (vecs w this) < RawMemory_Capacity (m_data (vecs w this))
          then InsertWithoutReallocation T this (Size w this) a w
          else InsertWithReallocation T this (Size w this) a w)
       (\<lambda>w4 _. let w5 = set_size this (m_size (vecs w4 this) + 1) w4 in
                at (RawMemory_index_pred (m_data (vecs w5 this)) (m_size (vecs w5 this)))
                  (\<lambda>p. Ok w5 (Ref p)))"
  by (simp add: EmplaceBack_v1_def InsertWithoutReallocation_def InsertWithReallocation_def
      insert_reallocating_def MoveOrCopyN_def [symmetric] Let_def Size_def split: prod.splits)

lemma EmplaceBack_v1_spec:
  assumes v: "valid w this"
  shows "proper
    (\<lambda>w' r. valid w' this \<and> Size w' this = Suc (Size w this) \<and>
       elems w' this = elems w this @ [Some (init_value a)] \<and>
       Capacity w' this = (if Size w this < Capacity w this then Capacity w this
                           else if Capacity w this = 0 then 1 else 2 * Capacity w this) \<and>
       Vector_begin w' this = (if Size w this < Capacity w this then Vector_begin w this
                               else Ptr (brk w) 0) \<and>
       leaked w' = leaked w \<and>
       r = Ref (ptr_add (Vector_begin w' this) (Size w this)) \<and>
       deref w' (ptr_add (Vector_begin w' this) (Size w this)) = Some (Some (init_value a)))
    (\<lambda>w'. copy_constructible T \<or> fails T w (init_event a) \<longrightarrow> restored w w')
    (EmplaceBack_v1 T this a w)"
  unfolding EmplaceBack_v1_unfold
proof (rule proper_bnd [OF insert_core_spec [OF v order_refl]], goal_cases)
  case (1 w4 r)
  define w5 where "w5 = set_size this (m_size (vecs w4 this) + 1) w4"
  have v5: "valid w5 this" and s5: "Size w5 this = Suc (Size w this)"
    and e5: "elems w5 this = elems w this @ [Some (init_value a)]"
    and c5: "Capacity w5 this = (if Size w this < Capacity w this then Capacity w this
                           else if Capacity w this = 0 then 1 else 2 * Capacity w this)"
    and b5: "Vector_begin w5 this = (if Size w this < Capacity w this then Vector_begin w this
                               else Ptr (brk w) 0)"
    and l5: "leaked w5 = leaked w"
    using 1 length_elems [OF v] unfolding w5_def [symmetric] by (simp_all add: w5_def)
  have "deref w5 (ptr_add (Vector_begin w5 this) (Size w this)) =
      Some (elems w5 this ! Size w this)"
    by (rule deref_elem [OF v5]) (simp add: s5)
  then have "deref w5 (ptr_add (Vector_begin w5 this) (Size w this)) =
      Some (Some (init_value a))"
    using e5 length_elems [OF v] by (simp add: nth_append)
  then show ?case
    using v5 s5 e5 c5 b5 l5 back_index [OF v5 s5]
    unfolding Let_def w5_def [symmetric] by simp
qed simp

lemma EmplaceBack_v2_spec:
  assumes v: "valid w this"
  shows "proper
    (\<lambda>w' r. valid w' this \<and> Size w' this = Suc (Size w this) \<and>
       elems w' this = elems w this @ [Some (init_value a)] \<and>
       Capacity w' this = (if Size w this < Capacity w this then Capacity w this
                           else if Capacity w this = 0 then 1 else 2 * Capacity w this) \<and>
       Vector_begin w' this = (if Size w this < Capacity w this then Vector_begin w this
                               else Ptr (brk w) 0) \<and>
       leaked w' = leaked w \<and>
       r = Ref (ptr_add (Vector_begin w' this) (Size w this)) \<and>
       deref w' (ptr_add (Vector_begin w' this) (Size w this)) = Some (Some (init_value a)))
    (\<lambda>w'. copy_constructible T \<or> fails T w (init_event a) \<longrightarrow> restored w w')
    (EmplaceBack_v2 T this a w)"
  unfolding EmplaceBack_v2_def Vector_end_valid [OF v] at_simps
proof (rule proper_bnd [OF Emplace_v2_spec [OF v order_refl]], goal_cases)
  case (1 w' r)
  have "deref w' (ptr_add (Vector_begin w' this) (Size w this)) =
      Some (elems w' this ! Size w this)"
    by (rule deref_elem) (use 1 in simp_all)
  then have "deref w' (ptr_add (Vector_begin w' this) (Size w this)) = Some (Some (init_value a))"
    using 1 length_elems [OF v] by (simp add: nth_append)
  then show ?case using 1 length_elems [OF v] by simp
qed simp

lemma Emplace_v1_eq_v2:
  assumes v: "valid w this" and i: "i < Size w this"
  shows "Emplace_v1 T this (ptr_add (Vector_begin w this) i) a w =
         Emplace_v2 T this (ptr_add (Vector_begin w this) i) a w"
proof (cases "m_buffer (m_data (vecs w this))")
  case Null
  then show ?thesis using valid_Null [OF v Null] i by (simp add: Size_def)
next
  case (Ptr b k)
  note vp = valid_Ptr [OF v Ptr]
  have buf: "m_buffer (m_data (vecs w this)) = Ptr b 0" using Ptr vp(1) by simp
  have n: "i < m_size (vecs w this)" "m_size (vecs w this) \<noteq> 0"
    "m_size (vecs w this) \<le> m_capacity (m_data (vecs w this))"
    "m_size (vecs w this) - 1 \<le> m_capacity (m_data (vecs w this))"
    using i vp(5) by (auto simp: Size_def)
  show ?thesis
    using buf n
    by (simp add: Emplace_v1_def Emplace_v2_def Vector_end_def Vector_begin_def GetAddress_def
        RawMemory_plus_def RawMemory_plus_dec_def RawMemory_plus_pred_def
        InsertWithoutReallocation_def InsertWithReallocation_def Let_def)
qed

lemma Emplace_v1_spec:
  assumes v: "valid w this" and i: "i \<le> Size w this"
  shows "proper
    (\<lambda>w' r. valid w' this \<and> Size w' this = Suc (Size w this) \<and>
       elems w' this = take i (elems w this) @ [Some (init_value a)] @ drop i (elems w this) \<and>
       Capacity w' this = (if Size w this < Capacity w this then Capacity w this
                           else if Capacity w this = 0 then 1 else 2 * Capacity w this) \<and>
       Vector_begin w' this = (if Size w this < Capacity w this then Vector_begin w this
                               else Ptr (brk w) 0) \<and>
       leaked w' = leaked w \<and> r = ptr_add (Vector_begin w' this) i)
    (\<lambda>w'. (i = Size w this \<or> Size w this = Capacity w this) \<and>
           (copy_constructible T \<or> fails T w (init_event a)) \<longrightarrow> restored w w')
    (Emplace_v1 T this (ptr_add (Vector_begin w this) i) a w)"
proof (cases "i = Size w this")
  case True
  have e: "Emplace_v1 T this (ptr_add (Vector_begin w this) i) a w =
      bnd (EmplaceBack_v1 T this a w) (\<lambda>w1 _.
        at (case Vector_end w1 this of None \<Rightarrow> None | Some e1 \<Rightarrow> ptr_dec e1) (\<lambda>p. Ok w1 p))"
    using True by (simp add: Emplace_v1_def Vector_end_valid [OF v])
  show ?thesis
    unfolding e
  proof (rule proper_bnd [OF EmplaceBack_v1_spec [OF v]], goal_cases)
    case (1 w1 r)
    then have v1: "valid w1 this" and s1: "Size w1 this = Suc (Size w this)" by simp_all
    have "deref w1 (ptr_add (Vector_begin w1 this) (Size w this)) = Some (Some (init_value a))"
      using 1 by blast
    then have "deref w1 (ptr_add (Vector_begin w1 this) (Size w this)) \<noteq> None" by simp
    then obtain b where b: "Vector_begin w1 this = Ptr b 0"
      using valid_Ptr(1) [OF v1] by (cases "m_buffer (m_data (vecs w1 this))")
        (auto simp: Vector_begin_def GetAddress_def)
    have e1: "at (case Vector_end w1 this of None \<Rightarrow> None | Some e1 \<Rightarrow> ptr_dec e1) (\<lambda>p. Ok w1 p) =
        Ok w1 (ptr_add (Vector_begin w1 this) (Size w this))"
      by (simp add: Vector_end_valid [OF v1] s1 b)
    show ?case
      unfolding e1 using 1 True length_elems [OF v] by simp
  qed (use True in simp)
next
  case False
  then have lt: "i < Size w this" using i by simp
  show ?thesis
    unfolding Emplace_v1_eq_v2 [OF v lt]
    by (rule proper_mono [OF Emplace_v2_spec [OF v i]]) auto
qed

section \<open>Exceptions come from the element type only\<close>

lemma raises_simps [simp]:
  "raises Q (Ok w r)" "raises Q (Throw w) = Q" "raises Q Terminate" "raises Q Undefined"
  by (simp_all add: raises_def)

lemma raises_bnd:
  assumes "raises Q m" and "\<And>w r. raises Q (f w r)"
  shows "raises Q (bnd m f)"
  using assms by (cases m) auto

lemma raises_unwind:
  assumes "raises Q m"
  shows "raises Q (unwind m c)"
  using assms by (cases m; cases "c (world_of m)") auto

lemma raises_at: "(\<And>p. raises Q (f p)) \<Longrightarrow> raises Q (at po f)"
  by (cases po) auto

lemma raises_if: "raises Q x \<Longrightarrow> raises Q y \<Longrightarrow> raises Q (if b then x else y)"
  by simp

lemma raises_case_option:
  "raises Q x \<Longrightarrow> (\<And>v. raises Q (f v)) \<Longrightarrow> raises Q (case po of None \<Rightarrow> x | Some v \<Rightarrow> f v)"
  by (cases po) auto

lemma raises_noexcept: "raises Q (noexcept m)"
  by (cases m) (auto simp: noexcept_def)

lemma raises_forget: "raises Q m \<Longrightarrow> raises Q (forget m)"
  unfolding forget_def by (erule raises_bnd) simp

lemmas raises_intros =
  raises_bnd raises_unwind raises_at raises_if raises_case_option raises_forget

lemma fails_throws: "fails T w e \<Longrightarrow> \<exists>h e. throws T h e"
  by (auto simp: fails_def split: event.splits)

lemma construct_at_raises: "raises (\<exists>h e. throws T h e) (construct_at T p a w)"
  by (auto simp: construct_at_def dest: fails_throws split: option.splits)

lemma value_construct_at_raises: "raises (\<exists>h e. throws T h e) (value_construct_at T p w)"
  by (auto simp: value_construct_at_def dest: fails_throws split: option.splits)

lemma copy_construct_at_raises: "raises (\<exists>h e. throws T h e) (copy_construct_at T p q w)"
  by (auto simp: copy_construct_at_def dest: fails_throws split: option.splits)

lemma move_construct_at_raises: "raises (\<exists>h e. throws T h e) (move_construct_at T p q w)"
  by (auto simp: move_construct_at_def dest: fails_throws split: option.splits)


lemma move_assign_at_raises: "raises (\<exists>h e. throws T h e) (move_assign_at T p q w)"
  by (auto simp: move_assign_at_def dest: fails_throws split: option.splits)

lemma move_assign_local_raises: "raises (\<exists>h e. throws T h e) (move_assign_local T p x w)"
  by (auto simp: move_assign_local_def dest: fails_throws split: option.splits)

lemma construct_local_raises: "raises (\<exists>h e. throws T h e) (construct_local T a w)"
  by (auto simp: construct_local_def dest: fails_throws)

lemma destroy_at_raises: "raises Q (destroy_at p w)"
  by (simp add: destroy_at_def split: option.splits)

lemma Deallocate_raises: "raises Q (Deallocate p w)"
  by (simp add: Deallocate_def split: ptr.splits option.splits)

lemma RawMemory_dtor_raises: "raises Q (RawMemory_dtor m w)"
  by (simp add: RawMemory_dtor_def Deallocate_raises)

lemma destroy_n_raises: "raises Q (destroy_n p n w)"
proof (induction n arbitrary: p w)
  case (Suc n)
  show ?case
    using destroy_at_raises [of Q p w] Suc [of "ptr_add p 1" "world_of (destroy_at p w)"]
    by (cases "destroy_at p w") auto
qed simp

lemma destroy_raises: "raises Q (destroy first lst w)"
  by (simp add: destroy_def destroy_n_raises split: option.splits)

lemma uninitialized_copy_loop_raises:
  "raises (\<exists>h e. throws T h e) (uninitialized_copy_loop T first result k n w)"
proof (induction n arbitrary: k w)
  case (Suc n)
  let ?m = "copy_construct_at T (ptr_add result k) (ptr_add first k) w"
  show ?case
    using copy_construct_at_raises [of T "ptr_add result k" "ptr_add first k" w]
      Suc [of "Suc k" "world_of ?m"]
    by (cases ?m) (auto intro!: raises_bnd destroy_n_raises)
qed simp

lemma uninitialized_move_loop_raises:
  "raises (\<exists>h e. throws T h e) (uninitialized_move_loop T first result k n w)"
proof (induction n arbitrary: k w)
  case (Suc n)
  let ?m = "move_construct_at T (ptr_add result k) (ptr_add first k) w"
  show ?case
    using move_construct_at_raises [of T "ptr_add result k" "ptr_add first k" w]
      Suc [of "Suc k" "world_of ?m"]
    by (cases ?m) (auto intro!: raises_bnd destroy_n_raises)
qed simp


lemma move_backward_loop_raises:
  "raises (\<exists>h e. throws T h e) (move_backward_loop T lst d_lst n w)"
proof (induction n arbitrary: lst d_lst w)
  case (Suc n)
  show ?case
  proof (cases "ptr_dec lst")
    case (Some l)
    show ?thesis
    proof (cases "ptr_dec d_lst")
      case d: (Some d)
      show ?thesis
        using Some d move_assign_at_raises [of T d l w]
          Suc [of l d "world_of (move_assign_at T d l w)"]
        by (cases "move_assign_at T d l w") auto
    qed (simp add: Some)
  qed simp
qed simp

lemma erase_loop_raises: "raises (\<exists>h e. throws T h e) (erase_loop T d n i w)"
proof (induction T d n i w rule: erase_loop.induct)
  case (1 T d n i w)
  let ?m = "move_assign_at T (ptr_add (m_buffer d) i) (ptr_add (m_buffer d) (i + 1)) w"
  show ?case
  proof (cases "i = n - 1 \<or> \<not> i + 1 < m_capacity d")
    case True
    then show ?thesis by (auto simp: erase_loop.simps [of T d n i w])
  next
    case False
    then show ?thesis
      using move_assign_at_raises [of T "ptr_add (m_buffer d) i" "ptr_add (m_buffer d) (i + 1)" w]
        "1.IH" [of "world_of ?m" "result_of ?m"]
      by (cases ?m) (auto simp: erase_loop.simps [of T d n i w])
  qed
qed

lemma MoveOrCopyN_raises: "raises (\<exists>h e. throws T h e) (MoveOrCopyN T first n result w)"
  by (simp add: MoveOrCopyN_def uninitialized_move_n_def uninitialized_copy_n_def
      uninitialized_move_loop_raises uninitialized_copy_loop_raises)

lemma move_backward_raises: "raises (\<exists>h e. throws T h e) (move_backward T first lst d_lst w)"
  by (simp add: move_backward_def move_backward_loop_raises split: option.splits)

lemmas raises_rules =
  construct_at_raises move_construct_at_raises move_assign_local_raises construct_local_raises
  destroy_at_raises destroy_n_raises RawMemory_dtor_raises Deallocate_raises
  MoveOrCopyN_raises move_backward_raises erase_loop_raises

lemma insert_in_place_raises:
  "raises (\<exists>h e. throws T h e) (insert_in_place T d n index before_end a w)"
  unfolding insert_in_place_def
  by (intro raises_intros raises_rules; simp)

lemma insert_reallocating_raises:
  "raises (\<exists>h e. throws T h e) (insert_reallocating T this N index a w)"
  unfolding insert_reallocating_def Let_def
  by (cases "RawMemory_ctor N w") (simp, intro raises_intros raises_rules)

lemma Emplace_v2_raises: "raises (\<exists>h e. throws T h e) (Emplace_v2 T this pos a w)"
  unfolding Emplace_v2_def InsertWithoutReallocation_def InsertWithReallocation_def Let_def
  by (intro raises_intros raises_rules insert_in_place_raises insert_reallocating_raises; simp)

lemma EmplaceBack_v2_raises: "raises (\<exists>h e. throws T h e) (EmplaceBack_v2 T this a w)"
  unfolding EmplaceBack_v2_def
  by (intro raises_intros Emplace_v2_raises) (simp_all split: option.splits)

lemma EmplaceBack_v1_raises: "raises (\<exists>h e. throws T h e) (EmplaceBack_v1 T this a w)"
  unfolding EmplaceBack_v1_unfold InsertWithoutReallocation_def InsertWithReallocation_def Let_def
  by (intro raises_intros raises_rules insert_in_place_raises insert_reallocating_raises; simp)

lemma Emplace_v1_raises: "raises (\<exists>h e. throws T h e) (Emplace_v1 T this pos a w)"
  unfolding Emplace_v1_def Let_def
  by (intro raises_intros raises_rules EmplaceBack_v1_raises insert_in_place_raises
      insert_reallocating_raises; simp)

lemma PopBack_raises: "raises Q (PopBack this w)"
  unfolding PopBack_def Let_def
  by (intro raises_intros destroy_at_raises; simp)

lemma Erase_raises: "raises (\<exists>h e. throws T h e) (Erase T this pos w)"
  unfolding Erase_def Let_def
  by (intro raises_intros raises_rules PopBack_raises; simp)

section \<open>The claims about insertion\<close>

lemma proper_sel:
  assumes "proper P E m"
  shows "is_Ok m \<and> P (world_of m) (result_of m) \<or> is_Throw m \<and> E (world_of m)"
  using assms by (cases m) simp_all

lemma raises_sel: "raises Q m \<Longrightarrow> is_Throw m \<Longrightarrow> Q"
  by (cases m) simp_all

lemma restored_vector:
  assumes v: "valid w this" and r: "restored w w'"
  shows "valid w' this" "elems w' this = elems w this" "Size w' this = Size w this"
    "Capacity w' this = Capacity w this" "Vector_begin w' this = Vector_begin w this"
proof -
  have vv: "vecs w' this = vecs w this" using r by (simp add: restored_def)
  show "Size w' this = Size w this" "Capacity w' this = Capacity w this"
    "Vector_begin w' this = Vector_begin w this"
    by (simp_all add: Size_def Capacity_def Vector_begin_def vv)
  show "valid w' this"
  proof (cases "m_buffer (m_data (vecs w this))")
    case Null
    then show ?thesis using v by (simp add: valid_def Let_def vv)
  next
    case (Ptr b j)
    note vp = valid_Ptr [OF v Ptr]
    have m: "mem w' b = mem w b" "blocks w' b = blocks w b" "b < brk w'"
      using r vp(3) by (auto simp: restored_def)
    show ?thesis using v Ptr m by (simp add: valid_def Let_def vv)
  qed
  show "elems w' this = elems w this"
  proof (cases "m_buffer (m_data (vecs w this))")
    case Null
    then show ?thesis by (simp add: elems_def cells_def Size_def vv)
  next
    case (Ptr b j)
    note vp = valid_Ptr [OF v Ptr]
    have m: "mem w' b = mem w b"
      using r vp(3) by (auto simp: restored_def)
    show ?thesis using Ptr m by (simp add: elems_def cells_def Size_def vv)
  qed
qed

lemma T_nat_never_throws: "\<not> (\<exists>h e. throws T_nat h e)"
  by (simp add: T_nat_def)

lemma inserted_nth:
  assumes "ys = take i xs @ Some x # drop i xs" "i \<le> length xs"
  shows "ys ! i = Some x" "\<forall>k<i. ys ! k = xs ! k"
    "\<forall>k. i \<le> k \<and> k < length xs \<longrightarrow> ys ! Suc k = xs ! k"
  using assms by (auto simp: nth_append min_def Suc_diff_le)

text \<open>
  Claim C1. Let the vector at \<open>this\<close> be valid with \<open>n\<close> elements and let \<open>i \<le> n\<close>.
  \<^verbatim>\<open>Emplace\<close> (both listings) and the two \<^verbatim>\<open>Insert\<close> overloads (both listings), called
  with the position \<^verbatim>\<open>begin() + i\<close> and a new value \<open>x\<close>, end normally or, if some
  operation of the element type can throw, with an exception; they never end in
  \<^verbatim>\<open>std::terminate\<close> or undefined behaviour. When they end normally the vector is valid,
  its size is \<open>n + 1\<close>, index \<open>i\<close> holds \<open>x\<close>, the elements before \<open>i\<close> are at their old
  indices, the elements from \<open>i\<close> on are one index up, and the iterator returned is
  \<^verbatim>\<open>begin() + i\<close> of the vector after the call.
\<close>
theorem insert_at_index:
  assumes "valid w this" and "i \<le> Size w this"
    and "pos = ptr_add (Vector_begin w this) i" and "init_value a = x"
    and "m \<in> {Emplace_v1 T this pos a w, Emplace_v2 T this pos a w,
              Insert_copy_v1 T this pos x w, Insert_copy_v2 T this pos x w,
              Insert_move_v1 T this pos x w, Insert_move_v2 T this pos x w}"
  shows "(is_Ok m \<or> is_Throw m \<and> (\<exists>h e. throws T h e)) \<and>
         (is_Ok m \<longrightarrow>
            valid (world_of m) this \<and>
            Size (world_of m) this = Suc (Size w this) \<and>
            elems (world_of m) this = take i (elems w this) @ Some x # drop i (elems w this) \<and>
            elems (world_of m) this ! i = Some x \<and>
            (\<forall>k<i. elems (world_of m) this ! k = elems w this ! k) \<and>
            (\<forall>k. i \<le> k \<and> k < Size w this \<longrightarrow>
                 elems (world_of m) this ! Suc k = elems w this ! k) \<and>
            result_of m = ptr_add (Vector_begin (world_of m) this) i)"
proof -
  have "\<exists>b. init_value b = x \<and>
        (m = Emplace_v1 T this pos b w \<or> m = Emplace_v2 T this pos b w)"
  proof -
    have "init_value (Copy x) = x" "init_value (Move x) = x" by simp_all
    then show ?thesis
      using assms(4,5)
      unfolding Insert_copy_v1_def Insert_copy_v2_def Insert_move_v1_def Insert_move_v2_def
      by blast
  qed
  then obtain b where b: "init_value b = x"
    and m: "m = Emplace_v1 T this pos b w \<or> m = Emplace_v2 T this pos b w" by blast
  let ?P = "\<lambda>w' r. valid w' this \<and> Size w' this = Suc (Size w this) \<and>
       elems w' this = take i (elems w this) @ Some x # drop i (elems w this) \<and>
       r = ptr_add (Vector_begin w' this) i"
  have p: "proper ?P (\<lambda>_. True) m" and r: "raises (\<exists>h e. throws T h e) m"
    using m Emplace_v1_spec [OF assms(1,2), where T = T and a = b]
      Emplace_v2_spec [OF assms(1,2), where T = T and a = b]
      Emplace_v1_raises [of T this pos b w] Emplace_v2_raises [of T this pos b w]
    unfolding assms(3) [symmetric] b
    by (auto elim!: proper_mono)
  have 1: "is_Ok m \<or> is_Throw m \<and> (\<exists>h e. throws T h e)"
    using proper_sel [OF p] raises_sel [OF r] by blast
  have 2: "?P (world_of m) (result_of m)" if "is_Ok m"
    using proper_sel [OF p] that by (cases m) auto
  have 3: "elems (world_of m) this ! i = Some x \<and>
            (\<forall>k<i. elems (world_of m) this ! k = elems w this ! k) \<and>
            (\<forall>k. i \<le> k \<and> k < Size w this \<longrightarrow>
                 elems (world_of m) this ! Suc k = elems w this ! k)" if "is_Ok m"
    using inserted_nth [of "elems (world_of m) this" i "elems w this" x]
      2 [OF that] assms(2) length_elems [OF assms(1)] by simp
  show ?thesis using 1 2 3 by blast
qed

theorem insert_at_index_witness:
  "valid w_two 0 \<and> (1::nat) \<le> Size w_two 0 \<and>
   is_Ok (Emplace_v1 T_nat 0 (Ptr 0 1) (Args 7) w_two) \<and>
   Size (world_of (Emplace_v1 T_nat 0 (Ptr 0 1) (Args 7) w_two)) 0 = 3 \<and>
   elems (world_of (Emplace_v1 T_nat 0 (Ptr 0 1) (Args 7) w_two)) 0 = [Some 1, Some 7, Some 2] \<and>
   result_of (Emplace_v1 T_nat 0 (Ptr 0 1) (Args 7) w_two) =
     ptr_add (Vector_begin (world_of (Emplace_v1 T_nat 0 (Ptr 0 1) (Args 7) w_two)) 0) 1"
proof -
  have v: "valid w_two 0" and s: "Size w_two 0 = 2" and b: "Vector_begin w_two 0 = Ptr 0 0"
    and e: "elems w_two 0 = [Some 1, Some 2]"
    by code_simp+
  have i: "(1::nat) \<le> Size w_two 0" by (simp add: s)
  have p: "Ptr 0 1 = ptr_add (Vector_begin w_two 0) 1" by (simp add: b)
  have a: "init_value (Args (7::nat)) = 7" by simp
  show ?thesis
    using insert_at_index [OF v i p a, of "Emplace_v1 T_nat 0 (Ptr 0 1) (Args 7) w_two" T_nat]
      T_nat_never_throws v
    by (simp add: s e)
qed

section \<open>The claims about appending and growth\<close>

lemma sel_forget:
  assumes "proper (\<lambda>w' r. P w') E m" "raises Q m"
  shows "(is_Ok (forget m) \<or> Q) \<and> (is_Ok (forget m) \<longrightarrow> P (world_of (forget m)))"
  using assms by (cases m) (simp_all add: forget_def)



lemma sel_forget_push:
  assumes "proper (\<lambda>w' r. P w') E m" "raises Q m"
  shows "(is_Ok (forget (bnd m (\<lambda>w' _. Ok w' Void))) \<or> Q) \<and>
         (is_Ok (forget (bnd m (\<lambda>w' _. Ok w' Void))) \<longrightarrow>
            P (world_of (forget (bnd m (\<lambda>w' _. Ok w' Void)))))"
  using assms by (cases m) (simp_all add: forget_def)

lemma sel_forget_push_noexcept:
  assumes "proper (\<lambda>w' r. P w') E m" "raises Q m"
  shows "(is_Ok (forget (noexcept (bnd m (\<lambda>w' _. Ok w' Void)))) \<or> Q) \<and>
         (is_Ok (forget (noexcept (bnd m (\<lambda>w' _. Ok w' Void)))) \<longrightarrow>
            P (world_of (forget (noexcept (bnd m (\<lambda>w' _. Ok w' Void))))))"
  using assms by (cases m) (simp_all add: forget_def noexcept_def)

lemma noexcept_sel:
  "\<not> is_Throw (noexcept m)" "is_Throw m \<Longrightarrow> is_Terminate (noexcept m)"
  by (cases m; simp add: noexcept_def)+

lemma bnd_Ok_sel: "is_Throw (bnd m (\<lambda>w' _. Ok w' r)) = is_Throw m"
  by (cases m) simp_all

text \<open>
  Claim C4. Let the vector at \<open>this\<close> be valid and full (its size equals its capacity
  \<open>c\<close>). Every operation that adds an element (\<^verbatim>\<open>EmplaceBack\<close>, both \<^verbatim>\<open>PushBack\<close>
  overloads, \<^verbatim>\<open>Emplace\<close> and both \<^verbatim>\<open>Insert\<close> overloads at a position
  \<^verbatim>\<open>begin() + i\<close> with \<open>i\<close> at most the size, in both listings) ends normally unless
  the element type can throw, and when it ends normally the vector has moved to a block
  allocated by the call, of exactly \<open>2 * c\<close> slots, or of one slot when \<open>c = 0\<close>.
\<close>
theorem growth_doubles_capacity:
  assumes "valid w this" and "Size w this = Capacity w this" and "i \<le> Size w this"
    and "pos = ptr_add (Vector_begin w this) i"
    and "m \<in> {forget (EmplaceBack_v1 T this a w), forget (EmplaceBack_v2 T this a w),
              forget (PushBack_copy_v1 T this x w), forget (PushBack_copy_v2 T this x w),
              forget (PushBack_move_v1 T this x w), forget (PushBack_move_v2 T this x w),
              forget (Emplace_v1 T this pos a w), forget (Emplace_v2 T this pos a w),
              forget (Insert_copy_v1 T this pos x w), forget (Insert_copy_v2 T this pos x w),
              forget (Insert_move_v1 T this pos x w), forget (Insert_move_v2 T this pos x w)}"
  shows "(is_Ok m \<or> (\<exists>h e. throws T h e)) \<and>
         (is_Ok m \<longrightarrow>
            Capacity (world_of m) this = (if Capacity w this = 0 then 1 else 2 * Capacity w this) \<and>
            Vector_begin (world_of m) this = Ptr (brk w) 0 \<and>
            blocks (world_of m) (brk w) = Some (Capacity (world_of m) this))"
proof -
  let ?Q = "\<exists>h e. throws T h e"
  let ?P = "\<lambda>w'. valid w' this \<and>
     Capacity w' this = (if Capacity w this = 0 then 1 else 2 * Capacity w this) \<and>
     Vector_begin w' this = Ptr (brk w) 0"
  have eb: "proper (\<lambda>w' r. ?P w') (\<lambda>_. True) (EmplaceBack_v1 T this b w)"
    "proper (\<lambda>w' r. ?P w') (\<lambda>_. True) (EmplaceBack_v2 T this b w)" for b
    using assms(2)
    by (auto intro!: proper_mono [OF EmplaceBack_v1_spec [OF assms(1)]]
        proper_mono [OF EmplaceBack_v2_spec [OF assms(1)]])
  have em: "proper (\<lambda>w' r. ?P w') (\<lambda>_. True) (Emplace_v1 T this pos b w)"
    "proper (\<lambda>w' r. ?P w') (\<lambda>_. True) (Emplace_v2 T this pos b w)" for b
    unfolding assms(4) using assms(2)
    by (auto intro!: proper_mono [OF Emplace_v1_spec [OF assms(1,3)]]
        proper_mono [OF Emplace_v2_spec [OF assms(1,3)]])
  note r = EmplaceBack_v1_raises [of T this _ w] EmplaceBack_v2_raises [of T this _ w]
    Emplace_v1_raises [of T this pos _ w] Emplace_v2_raises [of T this pos _ w]
  let ?G = "\<lambda>n. (is_Ok n \<or> ?Q) \<and> (is_Ok n \<longrightarrow> ?P (world_of n))"
  have f1: "?G (forget (EmplaceBack_v1 T this a w))"
    by (rule sel_forget [OF eb(1) r(1)])
  have f2: "?G (forget (EmplaceBack_v2 T this a w))"
    by (rule sel_forget [OF eb(2) r(2)])
  have f3: "?G (forget (PushBack_copy_v1 T this x w))"
    unfolding PushBack_copy_v1_def by (rule sel_forget_push [OF eb(1) r(1)])
  have f4: "?G (forget (PushBack_copy_v2 T this x w))"
    unfolding PushBack_copy_v2_def by (rule sel_forget_push [OF eb(2) r(2)])
  have f5: "?G (forget (PushBack_move_v1 T this x w))"
    unfolding PushBack_move_v1_def by (rule sel_forget_push_noexcept [OF eb(1) r(1)])
  have f6: "?G (forget (PushBack_move_v2 T this x w))"
    unfolding PushBack_move_v2_def by (rule sel_forget_push_noexcept [OF eb(2) r(2)])
  have f7: "?G (forget (Emplace_v1 T this pos b w))" for b
    by (rule sel_forget [OF em(1) r(3)])
  have f8: "?G (forget (Emplace_v2 T this pos b w))" for b
    by (rule sel_forget [OF em(2) r(4)])
  have all: "?G m"
  proof -
    consider "m = forget (EmplaceBack_v1 T this a w)" | "m = forget (EmplaceBack_v2 T this a w)"
      | "m = forget (PushBack_copy_v1 T this x w)" | "m = forget (PushBack_copy_v2 T this x w)"
      | "m = forget (PushBack_move_v1 T this x w)" | "m = forget (PushBack_move_v2 T this x w)"
      | "m = forget (Emplace_v1 T this pos a w)" | "m = forget (Emplace_v2 T this pos a w)"
      | "m = forget (Emplace_v1 T this pos (Copy x) w)"
      | "m = forget (Emplace_v2 T this pos (Copy x) w)"
      | "m = forget (Emplace_v1 T this pos (Move x) w)"
      | "m = forget (Emplace_v2 T this pos (Move x) w)"
      using assms(5)
      unfolding Insert_copy_v1_def Insert_copy_v2_def Insert_move_v1_def Insert_move_v2_def
      by blast
    then show ?thesis
    proof cases
      case 1 then show ?thesis using f1 by simp
    next
      case 2 then show ?thesis using f2 by simp
    next
      case 3 then show ?thesis using f3 by simp
    next
      case 4 then show ?thesis using f4 by simp
    next
      case 5 then show ?thesis using f5 by simp
    next
      case 6 then show ?thesis using f6 by simp
    next
      case 7 then show ?thesis using f7 by simp
    next
      case 8 then show ?thesis using f8 by simp
    next
      case 9 then show ?thesis using f7 by simp
    next
      case 10 then show ?thesis using f8 by simp
    next
      case 11 then show ?thesis using f7 by simp
    next
      case 12 then show ?thesis using f8 by simp
    qed
  qed
  have "blocks w' (brk w) = Some (Capacity w' this)" if "?P w'" for w' :: "'a world"
  proof -
    have b: "m_buffer (m_data (vecs w' this)) = Ptr (brk w) 0"
      using that by (simp add: Vector_begin_def GetAddress_def)
    show ?thesis
      using valid_Ptr(4) [OF _ b] that by (simp add: Capacity_def RawMemory_Capacity_def)
  qed
  then show ?thesis using all by blast
qed

theorem growth_doubles_capacity_witness:
  "valid w_two 0 \<and> Size w_two 0 = Capacity w_two 0 \<and> (1::nat) \<le> Size w_two 0 \<and>
   is_Ok (forget (Insert_copy_v2 T_nat 0 (Ptr 0 1) 7 w_two)) \<and>
   Capacity w_two 0 = 2 \<and>
   Capacity (world_of (forget (Insert_copy_v2 T_nat 0 (Ptr 0 1) 7 w_two))) 0 = 4"
proof -
  have v: "valid w_two 0" and s: "Size w_two 0 = 2" and c: "Capacity w_two 0 = 2"
    and b: "Vector_begin w_two 0 = Ptr 0 0"
    by code_simp+
  have sc: "Size w_two 0 = Capacity w_two 0" by (simp add: s c)
  have i: "(1::nat) \<le> Size w_two 0" by (simp add: s)
  have p: "Ptr 0 1 = ptr_add (Vector_begin w_two 0) 1" by (simp add: b)
  show ?thesis
    using growth_doubles_capacity [OF v sc i p,
        of "forget (Insert_copy_v2 T_nat 0 (Ptr 0 1) 7 w_two)" T_nat "Copy 7" 7]
      T_nat_never_throws v
    by (simp add: s c)
qed




text \<open>
  Claim C2. Let the vector at \<open>this\<close> be valid. \<^verbatim>\<open>EmplaceBack\<close> and
  \<^verbatim>\<open>PushBack(const T&)\<close> (both listings) end normally or with an exception. If they end
  with an exception, and the element type is copy constructible or the exception is the
  one thrown by the construction of the new element, then the world is restored: every
  vector object is as before, every block that existed holds what it held, the block
  allocated by the call has been released, and nothing has leaked; so the vector is
  valid with the size, capacity, buffer and elements it had before the call.
  \<^verbatim>\<open>PushBack(T&&)\<close> is declared \<^verbatim>\<open>noexcept\<close>: no exception leaves it, and whenever
  \<^verbatim>\<open>EmplaceBack\<close> on the moved value ends with an exception, \<^verbatim>\<open>PushBack(T&&)\<close> ends in
  \<^verbatim>\<open>std::terminate\<close>.
\<close>
theorem emplace_back_strong_guarantee:
  assumes "valid w this"
    and "m \<in> {EmplaceBack_v1 T this a w, EmplaceBack_v2 T this a w} \<or>
         a = Copy x \<and> m \<in> {PushBack_copy_v1 T this x w, PushBack_copy_v2 T this x w}"
  shows "(is_Ok m \<or> is_Throw m) \<and>
         (is_Throw m \<and> (copy_constructible T \<or> fails T w (init_event a)) \<longrightarrow>
            restored w (world_of m) \<and>
            valid (world_of m) this \<and>
            Size (world_of m) this = Size w this \<and>
            Capacity (world_of m) this = Capacity w this \<and>
            Vector_begin (world_of m) this = Vector_begin w this \<and>
            elems (world_of m) this = elems w this \<and>
            leaked (world_of m) = leaked w) \<and>
         \<not> is_Throw (PushBack_move_v1 T this y w) \<and>
         \<not> is_Throw (PushBack_move_v2 T this y w) \<and>
         (is_Throw (EmplaceBack_v1 T this (Move y) w) \<longrightarrow>
            is_Terminate (PushBack_move_v1 T this y w)) \<and>
         (is_Throw (EmplaceBack_v2 T this (Move y) w) \<longrightarrow>
            is_Terminate (PushBack_move_v2 T this y w))"
proof -
  let ?E = "\<lambda>w'. copy_constructible T \<or> fails T w (init_event a) \<longrightarrow> restored w w'"
  have eb: "proper (\<lambda>_ _. True) ?E (EmplaceBack_v1 T this a w)"
    "proper (\<lambda>_ _. True) ?E (EmplaceBack_v2 T this a w)"
    by (auto intro!: proper_mono [OF EmplaceBack_v1_spec [OF assms(1)]]
        proper_mono [OF EmplaceBack_v2_spec [OF assms(1)]])
  have pb: "proper (\<lambda>_ _. True) ?E (bnd (EmplaceBack_v1 T this a w) (\<lambda>w' _. Ok w' Void))"
    "proper (\<lambda>_ _. True) ?E (bnd (EmplaceBack_v2 T this a w) (\<lambda>w' _. Ok w' Void))"
    by (rule proper_bnd [OF eb(1)], simp_all) (rule proper_bnd [OF eb(2)], simp_all)
  have p: "proper (\<lambda>_ _. True) ?E m"
    using assms(2) eb pb unfolding PushBack_copy_v1_def PushBack_copy_v2_def by auto
  have 1: "is_Ok m \<or> is_Throw m" using proper_sel [OF p] by blast
  have 2: "restored w (world_of m)"
    if "is_Throw m" "copy_constructible T \<or> fails T w (init_event a)"
    using proper_sel [OF p] that by (cases m) auto
  have 3: "leaked w' = leaked w" if "restored w w'" for w' :: "'a world"
    using that by (simp add: restored_def)
  have 4: "\<not> is_Throw (PushBack_move_v1 T this y w)" "\<not> is_Throw (PushBack_move_v2 T this y w)"
    "is_Throw (EmplaceBack_v1 T this (Move y) w) \<longrightarrow> is_Terminate (PushBack_move_v1 T this y w)"
    "is_Throw (EmplaceBack_v2 T this (Move y) w) \<longrightarrow> is_Terminate (PushBack_move_v2 T this y w)"
    unfolding PushBack_move_v1_def PushBack_move_v2_def
    by (simp_all add: noexcept_sel bnd_Ok_sel)
  show ?thesis
    using 1 2 3 4 restored_vector [OF assms(1)] by blast
qed

theorem emplace_back_strong_guarantee_witness:
  "valid w_two 0 \<and>
   fails T_throwing_move w_two (init_event (Move 5)) \<and>
   is_Throw (EmplaceBack_v1 T_throwing_move 0 (Move 5) w_two) \<and>
   Size (world_of (EmplaceBack_v1 T_throwing_move 0 (Move 5) w_two)) 0 = 2 \<and>
   Capacity (world_of (EmplaceBack_v1 T_throwing_move 0 (Move 5) w_two)) 0 = 2 \<and>
   elems (world_of (EmplaceBack_v1 T_throwing_move 0 (Move 5) w_two)) 0 = [Some 1, Some 2] \<and>
   leaked (world_of (EmplaceBack_v1 T_throwing_move 0 (Move 5) w_two)) = 0 \<and>
   is_Terminate (PushBack_move_v1 T_throwing_move 0 5 w_two) \<and>
   is_Throw (EmplaceBack_v2 T_throwing_move 0 (Move 5) w_two) \<and>
   is_Terminate (PushBack_move_v2 T_throwing_move 0 5 w_two)"
proof -
  have v: "valid w_two 0" and s: "Size w_two 0 = 2" and c: "Capacity w_two 0 = 2"
    and e: "elems w_two 0 = [Some 1, Some 2]" and l: "leaked w_two = 0"
    and f: "fails T_throwing_move w_two (init_event (Move 5))"
    and t: "is_Throw (EmplaceBack_v1 T_throwing_move 0 (Move 5) w_two)"
      "is_Throw (EmplaceBack_v2 T_throwing_move 0 (Move 5) w_two)"
    by code_simp+
  show ?thesis
    using emplace_back_strong_guarantee [OF v,
        of "EmplaceBack_v1 T_throwing_move 0 (Move 5) w_two" T_throwing_move "Move 5" 5 5]
      v f t
    by (simp add: s c e l)
qed

section \<open>Erase\<close>

lemma erase_loop_slots:
  assumes "m_buffer d = Ptr a 0" "blocks w a = Some (m_capacity d)" "Suc (i + k) \<le> m_capacity d"
    and "\<forall>t\<le>k. mem w a (i + t) \<noteq> None"
  shows "proper
     (\<lambda>w' _. (\<forall>c. c \<noteq> a \<longrightarrow> mem w' c = mem w c) \<and>
             (\<forall>t<k. mem w' a (i + t) = mem w a (Suc (i + t))) \<and>
             mem w' a (i + k) \<noteq> None \<and>
             (\<forall>x. x < i \<or> i + k < x \<longrightarrow> mem w' a x = mem w a x))
     (\<lambda>w'. (\<forall>c. c \<noteq> a \<longrightarrow> mem w' c = mem w c) \<and>
           (\<forall>x. (mem w' a x = None) = (mem w a x = None)))
     (erase_loop T d (Suc (i + k)) i w)"
  using assms
proof (induction k arbitrary: i w)
  case 0
  have "erase_loop T d (Suc (i + 0)) i w = Ok w ()"
    by (subst erase_loop.simps) simp
  then show ?case using "0.prems" by simp
next
  case (Suc k)
  let ?n = "Suc (i + Suc k)"
  have "mem w a i \<noteq> None" "mem w a (Suc i) \<noteq> None"
    using Suc.prems(4) [rule_format, of 0] Suc.prems(4) [rule_format, of 1] by auto
  then obtain y x where y: "mem w a i = Some y" and x: "mem w a (Suc i) = Some x" by auto
  let ?ev = "MoveAssign y x"
  have ma: "move_assign_at T (Ptr a i) (Ptr a (Suc i)) w =
     (if fails T w ?ev then Throw (emit ?ev w)
      else Ok (store (Ptr a i) (Some x) (store (Ptr a (Suc i)) (Some (moved_from T x)) (emit ?ev w))) ())"
    by (rule move_assign_at_live [OF Suc.prems(2) _ _ y x]) (use Suc.prems in auto)
  have step: "erase_loop T d ?n i w =
      (case move_assign_at T (Ptr a i) (Ptr a (Suc i)) w of
         Ok w' _ \<Rightarrow> erase_loop T d ?n (Suc i) w'
       | Throw w' \<Rightarrow> Throw w' | Terminate \<Rightarrow> Terminate | Undefined \<Rightarrow> Undefined)"
    by (subst erase_loop.simps) (use Suc.prems in simp)
  show ?case
  proof (cases "fails T w ?ev")
    case True
    then show ?thesis unfolding step by (simp add: ma)
  next
    case False
    let ?w1 = "store (Ptr a i) (Some x) (store (Ptr a (Suc i)) (Some (moved_from T x)) (emit ?ev w))"
    have p4: "\<forall>t\<le>k. mem ?w1 a (Suc i + t) \<noteq> None"
    proof (intro allI impI)
      fix t assume "t \<le> k"
      then have "mem w a (i + Suc t) \<noteq> None" using Suc.prems(4) by auto
      then show "mem ?w1 a (Suc i + t) \<noteq> None" by simp
    qed
    have "proper
     (\<lambda>w' _. (\<forall>c. c \<noteq> a \<longrightarrow> mem w' c = mem ?w1 c) \<and>
             (\<forall>t<k. mem w' a (Suc i + t) = mem ?w1 a (Suc (Suc i + t))) \<and>
             mem w' a (Suc i + k) \<noteq> None \<and>
             (\<forall>x. x < Suc i \<or> Suc i + k < x \<longrightarrow> mem w' a x = mem ?w1 a x))
     (\<lambda>w'. (\<forall>c. c \<noteq> a \<longrightarrow> mem w' c = mem ?w1 c) \<and>
           (\<forall>x. (mem w' a x = None) = (mem ?w1 a x = None)))
     (erase_loop T d (Suc (Suc i + k)) (Suc i) ?w1)"
      by (rule Suc.IH [OF Suc.prems(1) _ _ p4]) (use Suc.prems in auto)
    moreover have e: "erase_loop T d ?n i w = erase_loop T d (Suc (Suc i + k)) (Suc i) ?w1"
      unfolding step using False by (simp add: ma)
    ultimately show ?thesis
      unfolding e
    proof (elim proper_mono, goal_cases)
      case (1 w' r)
      have "mem w' a (i + t) = mem w a (Suc (i + t))" if "t < Suc k" for t
      proof (cases t)
        case 0
        then show ?thesis using 1 x by auto
      next
        case (Suc t')
        then have "t' < k" using that by simp
        then have "mem w' a (Suc i + t') = mem ?w1 a (Suc (Suc i + t'))" using 1 by blast
        then show ?thesis using Suc by simp
      qed
      moreover have "mem w' a x = mem w a x" if "x < i \<or> i + Suc k < x" for x
      proof -
        have "mem w' a x = mem ?w1 a x" using 1 that by auto
        then show ?thesis using that by auto
      qed
      ultimately show ?case using 1 by auto
    next
      case (2 w')
      then show ?case using x y by auto
    qed
  qed
qed

lemma erased_abstraction:
  assumes v: "valid w this" and b: "m_buffer (m_data (vecs w this)) = Ptr a 0"
    and s: "m_size (vecs w this) = Suc n" and i: "i \<le> n"
    and mo: "mem_only w w2"
    and m1: "\<forall>x<i. mem w2 a x = mem w a x"
    and m2: "\<forall>x. i \<le> x \<and> x < n \<longrightarrow> mem w2 a x = mem w a (Suc x)"
    and m3: "mem w2 a n = None"
    and m4: "\<forall>x>n. mem w2 a x = mem w a x"
  shows "valid (set_size this n w2) this \<and> Size (set_size this n w2) this = n \<and>
         elems (set_size this n w2) this = take i (elems w this) @ drop (Suc i) (elems w this) \<and>
         Capacity (set_size this n w2) this = Capacity w this \<and>
         Vector_begin (set_size this n w2) this = Vector_begin w this \<and>
         leaked (set_size this n w2) = leaked w"
proof -
  let ?w3 = "set_size this n w2"
  note vp = valid_Ptr [OF v b]
  have f: "m_buffer (m_data (vecs ?w3 this)) = Ptr a 0"
    "m_capacity (m_data (vecs ?w3 this)) = m_capacity (m_data (vecs w this))"
    "m_size (vecs ?w3 this) = n" "brk ?w3 = brk w" "blocks ?w3 = blocks w" "mem ?w3 = mem w2"
    "leaked ?w3 = leaked w"
    using mo b by (simp_all add: mem_only_def)
  have live: "mem w2 a x \<noteq> None" if "x < n" for x
  proof (cases "x < i")
    case True
    then show ?thesis using m1 vp(6) that s by auto
  next
    case False
    then have "mem w2 a x = mem w a (Suc x)" using m2 that by auto
    then show ?thesis using vp(6) that s by auto
  qed
  have raw: "mem w2 a x = None" if "n \<le> x" "x < m_capacity (m_data (vecs w this))" for x
  proof (cases "x = n")
    case True
    then show ?thesis using m3 by simp
  next
    case False
    then have "n < x" using that by simp
    then show ?thesis using m4 vp(7) that s by auto
  qed
  have 1: "valid ?w3 this"
    by (rule validI [OF f(1)]) (use f vp s live raw in auto)
  have e3: "elems ?w3 this = map (mem w2 a) [0..<n]"
    using elems_Ptr [OF f(1)] f vp(5) s by simp
  have e: "elems w this = map (mem w a) [0..<Suc n]"
    using elems_Ptr [OF b vp(5)] s by simp
  have 2: "elems ?w3 this = take i (elems w this) @ drop (Suc i) (elems w this)"
  proof (rule nth_equalityI)
    show "length (elems ?w3 this) = length (take i (elems w this) @ drop (Suc i) (elems w this))"
      using e e3 i by simp
  next
    fix x assume "x < length (elems ?w3 this)"
    then have x: "x < n" using e3 by simp
    show "elems ?w3 this ! x = (take i (elems w this) @ drop (Suc i) (elems w this)) ! x"
    proof (cases "x < i")
      case True
      then show ?thesis using e e3 x m1 i by (simp add: nth_append del: upt_Suc)
    next
      case False
      then have "mem w2 a x = mem w a (Suc x)" using m2 x by auto
      moreover have "(take i (elems w this) @ drop (Suc i) (elems w this)) ! x =
          elems w this ! (Suc x)"
        using False x i e by (simp add: nth_append min_def del: upt_Suc)
      ultimately show ?thesis using e e3 x by (simp del: upt_Suc)
    qed
  qed
  show ?thesis
    using 1 2 f b
    by (simp add: Size_def Capacity_def RawMemory_Capacity_def Vector_begin_def GetAddress_def)
qed


lemma valid_liveness:
  assumes v: "valid w this" and mo: "mem_only w w'"
    and m: "\<And>a j. m_buffer (m_data (vecs w this)) = Ptr a j \<Longrightarrow>
              \<forall>x. (mem w' a x = None) = (mem w a x = None)"
  shows "valid w' this" "Size w' this = Size w this" "Capacity w' this = Capacity w this"
    "Vector_begin w' this = Vector_begin w this" "leaked w' = leaked w"
proof -
  have vv: "vecs w' = vecs w" "blocks w' = blocks w" "brk w' = brk w" "leaked w' = leaked w"
    using mo by (simp_all add: mem_only_def)
  show "Size w' this = Size w this" "Capacity w' this = Capacity w this"
    "Vector_begin w' this = Vector_begin w this" "leaked w' = leaked w"
    by (simp_all add: Size_def Capacity_def Vector_begin_def vv)
  show "valid w' this"
  proof (cases "m_buffer (m_data (vecs w this))")
    case Null
    then show ?thesis using v by (simp add: valid_def Let_def vv)
  next
    case (Ptr a j)
    note vp = valid_Ptr [OF v Ptr]
    have b: "m_buffer (m_data (vecs w' this)) = Ptr a 0" using Ptr vp(1) by (simp add: vv)
    show ?thesis
      by (rule validI [OF b]) (use vp m [OF Ptr] in \<open>auto simp: vv\<close>)
  qed
qed

lemma PopBack_eq:
  assumes b: "m_buffer (m_data (vecs w this)) = Ptr a 0"
    and s: "m_size (vecs w this) = Suc n" "Suc n \<le> m_capacity (m_data (vecs w this))"
    and ba: "blocks w a = Some (m_capacity (m_data (vecs w this)))"
    and x: "mem w a n = Some x"
  shows "PopBack this w = Ok (set_size this n (store (Ptr a n) None (emit (Destroy x) w))) ()"
proof -
  have d: "destroy_at (Ptr a n) w = Ok (store (Ptr a n) None (emit (Destroy x) w)) ()"
    by (rule destroy_at_live [OF ba _ x]) (use s in simp)
  show ?thesis
    using b s by (simp add: PopBack_def RawMemory_plus_def d)
qed

lemma Erase_last_eq:
  assumes b: "m_buffer (m_data (vecs w this)) = Ptr a 0"
    and s: "m_size (vecs w this) = Suc n" "Suc n \<le> m_capacity (m_data (vecs w this))"
    and ba: "blocks w a = Some (m_capacity (m_data (vecs w this)))"
    and x: "mem w a n = Some x"
  shows "Erase T this (Ptr a n) w =
         Ok (set_size this n (store (Ptr a n) None (emit (Destroy x) w))) (Ptr a n)"
proof -
  have "n \<le> m_capacity (m_data (vecs w this))" using s by simp
  then show ?thesis
    using b s
    by (simp add: Erase_def RawMemory_plus_dec_def RawMemory_plus_def Vector_end_def
        PopBack_eq [OF b s ba x])
qed

lemma Erase_spec:
  assumes v: "valid w this" and i: "i < Size w this"
  shows "proper
    (\<lambda>w' r. valid w' this \<and> Size w' this = Size w this - 1 \<and>
       elems w' this = take i (elems w this) @ drop (Suc i) (elems w this) \<and>
       Capacity w' this = Capacity w this \<and> Vector_begin w' this = Vector_begin w this \<and>
       leaked w' = leaked w \<and> r = ptr_add (Vector_begin w' this) i)
    (\<lambda>w'. valid w' this \<and> Size w' this = Size w this \<and> Capacity w' this = Capacity w this \<and>
       Vector_begin w' this = Vector_begin w this \<and> leaked w' = leaked w)
    (Erase T this (ptr_add (Vector_begin w this) i) w)"
proof (cases "m_buffer (m_data (vecs w this))")
  case Null
  then show ?thesis using valid_Null [OF v Null] i by (simp add: Size_def)
next
  case (Ptr a j)
  note vp = valid_Ptr [OF v Ptr]
  have b: "m_buffer (m_data (vecs w this)) = Ptr a 0" using Ptr vp(1) by simp
  obtain n where s: "m_size (vecs w this) = Suc n" and n: "i \<le> n"
    using i by (cases "m_size (vecs w this)") (auto simp: Size_def)
  let ?d = "m_data (vecs w this)"
  have cap: "Suc n \<le> m_capacity ?d" using vp(5) s by simp
  have "mem w a n \<noteq> None" using vp(6) s by auto
  then obtain x where x: "mem w a n = Some x" by auto
  have pos: "ptr_add (Vector_begin w this) i = Ptr a i"
    using b by (simp add: Vector_begin_def GetAddress_def)
  show ?thesis
  proof (cases "i = n")
    case True
    let ?w2 = "store (Ptr a n) None (emit (Destroy x) w)"
    have "valid (set_size this n ?w2) this \<and> Size (set_size this n ?w2) this = n \<and>
         elems (set_size this n ?w2) this = take i (elems w this) @ drop (Suc i) (elems w this) \<and>
         Capacity (set_size this n ?w2) this = Capacity w this \<and>
         Vector_begin (set_size this n ?w2) this = Vector_begin w this \<and>
         leaked (set_size this n ?w2) = leaked w"
      by (rule erased_abstraction [OF v b s n]) (use True in \<open>auto simp: mem_only_def\<close>)
    then show ?thesis
      unfolding pos using True s b
      by (simp add: Erase_last_eq [OF b s cap vp(4) x] Size_def Vector_begin_def GetAddress_def)
  next
    case False
    then have lt: "i < n" using n by simp
    define k where "k = n - i"
    have k: "i + k = n" using lt by (simp add: k_def)
    have live: "\<forall>t\<le>k. mem w a (i + t) \<noteq> None"
      using vp(6) s k by auto
    have loop: "proper
     (\<lambda>w' _. ((\<forall>c. c \<noteq> a \<longrightarrow> mem w' c = mem w c) \<and>
             (\<forall>t<k. mem w' a (i + t) = mem w a (Suc (i + t))) \<and>
             mem w' a (i + k) \<noteq> None \<and>
             (\<forall>x. x < i \<or> i + k < x \<longrightarrow> mem w' a x = mem w a x)) \<and> mem_only w w')
     (\<lambda>w'. ((\<forall>c. c \<noteq> a \<longrightarrow> mem w' c = mem w c) \<and>
           (\<forall>x. (mem w' a x = None) = (mem w a x = None))) \<and> mem_only w w')
     (erase_loop T ?d (Suc (i + k)) i w)"
      by (rule proper_ends [OF erase_loop_slots [OF b vp(4) _ live] erase_loop_mem_only])
        (use cap k in simp)
    have e: "Erase T this (Ptr a i) w =
        bnd (erase_loop T ?d (Suc (i + k)) i w) (\<lambda>w1 _.
          bnd (destroy_at (Ptr a n) w1) (\<lambda>w2 _.
            let w3 = set_size this n w2 in
            at (RawMemory_plus (m_data (vecs w3 this)) i) (\<lambda>p. Ok w3 p)))"
    proof -
      have "n \<le> m_capacity ?d" using cap by simp
      then show ?thesis
        using b s cap False k
        by (simp add: Erase_def RawMemory_plus_dec_def RawMemory_plus_def Vector_begin_def
            GetAddress_def Let_def)
    qed
    show ?thesis
      unfolding pos e
    proof (rule proper_bnd [OF loop], goal_cases)
      case (1 w1 r)
      then have mo1: "mem_only w w1" by simp
      have b1: "blocks w1 a = Some (m_capacity ?d)" using mo1 vp(4) by (simp add: mem_only_def)
      have l1: "mem w1 a n \<noteq> None" using 1 k by auto
      have "proper (\<lambda>w' _. mem_only w1 w' \<and> mem w' = (mem w1)(a := (mem w1 a)(n := None)))
           (\<lambda>_. False) (destroy_at (Ptr a n) w1)"
        by (rule destroy_at_slot [OF b1 _ l1]) (use cap in simp)
      then show ?case
      proof (rule proper_bnd, goal_cases)
        case (1 w2 r2)
        have mo2: "mem_only w w2" using 1 mo1 by (auto intro: mem_only_trans)
        have m2: "mem w2 = (mem w1)(a := (mem w1 a)(n := None))" using 1 by simp
        have vs: "vecs w2 = vecs w" using mo2 by (simp add: mem_only_def)
        have q1: "\<forall>x<i. mem w2 a x = mem w a x"
          using \<open>_ \<and> mem_only w w1\<close> lt by (auto simp: m2)
        have q2: "\<forall>x. i \<le> x \<and> x < n \<longrightarrow> mem w2 a x = mem w a (Suc x)"
        proof (intro allI impI)
          fix x assume xx: "i \<le> x \<and> x < n"
          then have "x - i < k" using k by arith
          then have "mem w1 a (i + (x - i)) = mem w a (Suc (i + (x - i)))"
            using \<open>_ \<and> mem_only w w1\<close> by blast
          then show "mem w2 a x = mem w a (Suc x)" using xx by (simp add: m2)
        qed
        have q3: "mem w2 a n = None" by (simp add: m2)
        have q4: "\<forall>x>n. mem w2 a x = mem w a x"
          using \<open>_ \<and> mem_only w w1\<close> k by (auto simp: m2)
        have fin: "valid (set_size this n w2) this \<and> Size (set_size this n w2) this = n \<and>
         elems (set_size this n w2) this = take i (elems w this) @ drop (Suc i) (elems w this) \<and>
         Capacity (set_size this n w2) this = Capacity w this \<and>
         Vector_begin (set_size this n w2) this = Vector_begin w this \<and>
         leaked (set_size this n w2) = leaked w"
          by (rule erased_abstraction [OF v b s n mo2 q1 q2 q3 q4])
        have "i \<le> m_capacity ?d" using cap n by simp
        then show ?case
          using fin s b vs
          by (simp add: Let_def RawMemory_plus_def Size_def Vector_begin_def GetAddress_def)
      qed simp
    next
      case (2 w')
      then have mo: "mem_only w w'" by simp
      have "\<forall>x. (mem w' a' x = None) = (mem w a' x = None)"
        if "m_buffer (m_data (vecs w this)) = Ptr a' j'" for a' j'
        using 2 that Ptr by auto
      from valid_liveness [OF v mo this] show ?case by simp
    qed
  qed
qed


lemma erased_nth:
  assumes "ys = take i xs @ drop (Suc i) xs" "i < length xs"
  shows "\<forall>k<i. ys ! k = xs ! k"
    "\<forall>k. i \<le> k \<and> k < length xs - 1 \<longrightarrow> ys ! k = xs ! Suc k"
  using assms by (auto simp: nth_append min_def)

lemma Erase_last:
  assumes v: "valid w this" and s: "Size w this = Suc n"
  shows "is_Ok (Erase T this (ptr_add (Vector_begin w this) n) w) \<and>
         is_Ok (PopBack this w) \<and>
         world_of (Erase T this (ptr_add (Vector_begin w this) n) w) = world_of (PopBack this w) \<and>
         Vector_end (world_of (Erase T this (ptr_add (Vector_begin w this) n) w)) this =
           Some (result_of (Erase T this (ptr_add (Vector_begin w this) n) w))"
proof (cases "m_buffer (m_data (vecs w this))")
  case Null
  then show ?thesis using valid_Null [OF v Null] s by (simp add: Size_def)
next
  case (Ptr a j)
  note vp = valid_Ptr [OF v Ptr]
  have b: "m_buffer (m_data (vecs w this)) = Ptr a 0" using Ptr vp(1) by simp
  have s': "m_size (vecs w this) = Suc n" using s by (simp add: Size_def)
  have cap: "Suc n \<le> m_capacity (m_data (vecs w this))" using vp(5) s' by simp
  have "mem w a n \<noteq> None" using vp(6) s' by auto
  then obtain x where x: "mem w a n = Some x" by auto
  have pos: "ptr_add (Vector_begin w this) n = Ptr a n"
    using b by (simp add: Vector_begin_def GetAddress_def)
  have "n \<le> m_capacity (m_data (vecs w this))" using cap by simp
  then show ?thesis
    unfolding pos Erase_last_eq [OF b s' cap vp(4) x] PopBack_eq [OF b s' cap vp(4) x]
    using b by (simp add: Vector_end_def RawMemory_plus_def)
qed

text \<open>
  Claim C8. Let the vector at \<open>this\<close> be valid with \<open>n \<ge> 1\<close> elements and let \<open>i < n\<close>.
  \<^verbatim>\<open>Erase\<close> called with the position \<^verbatim>\<open>begin() + i\<close> ends normally or, if some
  operation of the element type can throw, with an exception; it never ends in
  \<^verbatim>\<open>std::terminate\<close> or undefined behaviour. When it ends normally the vector is valid
  with the same capacity, its size is \<open>n - 1\<close>, its elements are the old ones without
  the element that was at index \<open>i\<close> (those before \<open>i\<close> at their old indices, those
  after \<open>i\<close> one index down), and the iterator returned is \<^verbatim>\<open>begin() + i\<close>. When it
  ends with an exception the vector is still valid, with the size it had. For
  \<open>i = n - 1\<close> the call ends normally in exactly the world that \<^verbatim>\<open>PopBack\<close> leaves,
  and returns \<^verbatim>\<open>end()\<close>.
\<close>
theorem erase_at_index:
  assumes "valid w this" and "i < Size w this"
    and "pos = ptr_add (Vector_begin w this) i" and "m = Erase T this pos w"
  shows "(is_Ok m \<or> is_Throw m \<and> (\<exists>h e. throws T h e)) \<and>
         (is_Ok m \<longrightarrow>
            valid (world_of m) this \<and>
            Size (world_of m) this = Size w this - 1 \<and>
            elems (world_of m) this = take i (elems w this) @ drop (Suc i) (elems w this) \<and>
            (\<forall>k<i. elems (world_of m) this ! k = elems w this ! k) \<and>
            (\<forall>k. i \<le> k \<and> k < Size w this - 1 \<longrightarrow>
                 elems (world_of m) this ! k = elems w this ! Suc k) \<and>
            Capacity (world_of m) this = Capacity w this \<and>
            result_of m = ptr_add (Vector_begin (world_of m) this) i) \<and>
         (is_Throw m \<longrightarrow>
            valid (world_of m) this \<and> Size (world_of m) this = Size w this) \<and>
         (i = Size w this - 1 \<longrightarrow>
            is_Ok m \<and> is_Ok (PopBack this w) \<and> world_of m = world_of (PopBack this w) \<and>
            Vector_end (world_of m) this = Some (result_of m))"
proof -
  let ?P = "\<lambda>w' r. valid w' this \<and> Size w' this = Size w this - 1 \<and>
       elems w' this = take i (elems w this) @ drop (Suc i) (elems w this) \<and>
       Capacity w' this = Capacity w this \<and> r = ptr_add (Vector_begin w' this) i"
  let ?E = "\<lambda>w'. valid w' this \<and> Size w' this = Size w this"
  have p: "proper ?P ?E m"
    unfolding assms(3,4)
    by (rule proper_mono [OF Erase_spec [OF assms(1,2)]]) auto
  have r: "raises (\<exists>h e. throws T h e) m"
    unfolding assms(4) by (rule Erase_raises)
  have 1: "is_Ok m \<or> is_Throw m \<and> (\<exists>h e. throws T h e)"
    using proper_sel [OF p] raises_sel [OF r] by blast
  have 2: "?P (world_of m) (result_of m)" if "is_Ok m"
    using proper_sel [OF p] that by (cases m) auto
  have 3: "(\<forall>k<i. elems (world_of m) this ! k = elems w this ! k) \<and>
           (\<forall>k. i \<le> k \<and> k < Size w this - 1 \<longrightarrow>
                 elems (world_of m) this ! k = elems w this ! Suc k)" if "is_Ok m"
    using erased_nth [of "elems (world_of m) this" i "elems w this"]
      2 [OF that] assms(2) length_elems [OF assms(1)] by simp
  have 4: "?E (world_of m)" if "is_Throw m"
    using proper_sel [OF p] that by (cases m) auto
  have 5: "is_Ok m \<and> is_Ok (PopBack this w) \<and> world_of m = world_of (PopBack this w) \<and>
            Vector_end (world_of m) this = Some (result_of m)" if "i = Size w this - 1"
  proof -
    have "Size w this = Suc i" using that assms(2) by simp
    from Erase_last [OF assms(1) this, of T] show ?thesis
      unfolding assms(3,4) .
  qed
  show ?thesis using 1 2 3 4 5 by blast
qed

theorem erase_at_index_witness:
  "valid w_two 0 \<and> (0::nat) < Size w_two 0 \<and> (1::nat) < Size w_two 0 \<and>
   is_Ok (Erase T_nat 0 (Ptr 0 0) w_two) \<and>
   Size (world_of (Erase T_nat 0 (Ptr 0 0) w_two)) 0 = 1 \<and>
   elems (world_of (Erase T_nat 0 (Ptr 0 0) w_two)) 0 = [Some 2] \<and>
   result_of (Erase T_nat 0 (Ptr 0 0) w_two) = Ptr 0 0 \<and>
   is_Ok (Erase T_nat 0 (Ptr 0 1) w_two) \<and>
   elems (world_of (Erase T_nat 0 (Ptr 0 1) w_two)) 0 = [Some 1] \<and>
   world_of (Erase T_nat 0 (Ptr 0 1) w_two) = world_of (PopBack 0 w_two)"
proof -
  have v: "valid w_two 0" and s: "Size w_two 0 = 2" and b: "Vector_begin w_two 0 = Ptr 0 0"
    and e: "elems w_two 0 = [Some 1, Some 2]"
    and r: "result_of (Erase T_nat 0 (Ptr 0 0) w_two) = Ptr 0 0"
    by code_simp+
  have i0: "(0::nat) < Size w_two 0" and i1: "(1::nat) < Size w_two 0" by (simp_all add: s)
  have p0: "Ptr 0 0 = ptr_add (Vector_begin w_two 0) 0"
    and p1: "Ptr 0 1 = ptr_add (Vector_begin w_two 0) 1" by (simp_all add: b)
  have l: "(1::nat) = Size w_two 0 - 1" by (simp add: s)
  note t0 = erase_at_index [OF v i0 p0 refl, of T_nat]
  note t1 = erase_at_index [OF v i1 p1 refl, of T_nat]
  have ok: "is_Ok (Erase T_nat 0 (Ptr 0 0) w_two)" "is_Ok (Erase T_nat 0 (Ptr 0 1) w_two)"
    using t0 t1 T_nat_never_throws by blast+
  have "Size (world_of (Erase T_nat 0 (Ptr 0 0) w_two)) 0 = Size w_two 0 - 1"
    "elems (world_of (Erase T_nat 0 (Ptr 0 0) w_two)) 0 =
       take 0 (elems w_two 0) @ drop (Suc 0) (elems w_two 0)"
    "elems (world_of (Erase T_nat 0 (Ptr 0 1) w_two)) 0 =
       take 1 (elems w_two 0) @ drop (Suc 1) (elems w_two 0)"
    "world_of (Erase T_nat 0 (Ptr 0 1) w_two) = world_of (PopBack 0 w_two)"
    using t0 t1 ok l by blast+
  then show ?thesis
    using v ok r by (simp add: s e)
qed

section \<open>Copy assignment\<close>






























end
